theory Spec2Isabelle
  imports Complex_Main "HOL-Library.Word" "HOL-Library.AList"
begin

unbundle bit_operations_syntax

section \<open>JavaScript values used by server.js\<close>

text \<open>
  The bitwise operators of JavaScript convert their operands to signed 32-bit integers
  (ToInt32), so they are written on \<open>int\<close> with the wrap-around spelled out. The shift
  count is taken modulo 32. The operands in server.js are integers (MIDI nibbles).
\<close>

definition ToInt32 :: "int \<Rightarrow> int" where
  "ToInt32 x = signed_take_bit 31 x"

definition js_shl :: "int \<Rightarrow> nat \<Rightarrow> int" where
  "js_shl a n = ToInt32 (push_bit (n mod 32) (ToInt32 a))"

definition js_or :: "int \<Rightarrow> int \<Rightarrow> int" where
  "js_or a b = ToInt32 a OR ToInt32 b"

definition js_and :: "int \<Rightarrow> int \<Rightarrow> int" where
  "js_and a b = ToInt32 a AND ToInt32 b"

definition js_sar :: "int \<Rightarrow> nat \<Rightarrow> int" where
  "js_sar a n = drop_bit (n mod 32) (ToInt32 a)"

text \<open>
  \<open>x || d\<close> on an optional string: \<open>undefined\<close> and the empty string are falsy.
  On an optional number, \<open>undefined\<close> and 0 are falsy.
\<close>

definition str_or :: "string option \<Rightarrow> string \<Rightarrow> string" where
  "str_or x d = (case x of None \<Rightarrow> d | Some v \<Rightarrow> if v = [] then d else v)"

definition num_or :: "rat option \<Rightarrow> rat \<Rightarrow> rat" where
  "num_or x d = (case x of None \<Rightarrow> d | Some v \<Rightarrow> if v = 0 then d else v)"

text \<open>
  Strings. A character of this model is a UTF-16 code unit below 256, so a \<open>string\<close> is a
  JavaScript string over U+0000 to U+00FF (ASCII and the Latin-1 supplement), one character for
  each code unit; strings with a code unit from U+0100 on are not values of the type.

  \<open>String.prototype.toLowerCase\<close> on these code units: A to Z (U+0041 to U+005A) and the
  capital letters of the Latin-1 supplement (U+00C0 to U+00DE, the multiplication sign U+00D7
  apart) are moved up by 32; every other code unit below 256 is its own lower case.

  \<open>String.prototype.trim\<close> removes white space and line terminators at both ends; below 256
  these are tab, line feed, vertical tab, form feed, carriage return, space and the no-break
  space U+00A0.
\<close>

definition char_lower :: "char \<Rightarrow> char" where
  "char_lower c =
     (let n = (of_char c :: nat)
      in if (65 \<le> n \<and> n \<le> 90) \<or> (192 \<le> n \<and> n \<le> 222 \<and> n \<noteq> 215)
         then char_of (n + 32) else c)"

definition toLowerCase :: "string \<Rightarrow> string" where
  "toLowerCase s = map char_lower s"

definition is_space :: "char \<Rightarrow> bool" where
  "is_space c = (let n = (of_char c :: nat) in (9 \<le> n \<and> n \<le> 13) \<or> n = 32 \<or> n = 160)"

definition trim :: "string \<Rightarrow> string" where
  "trim s = rev (dropWhile is_space (rev (dropWhile is_space s)))"

text \<open>
  \<open>Array.prototype.find\<close> followed by a mutation of the object found: the first element
  that satisfies the test is replaced, the others are kept.
\<close>

fun update_first :: "('a \<Rightarrow> bool) \<Rightarrow> ('a \<Rightarrow> 'a) \<Rightarrow> 'a list \<Rightarrow> 'a list" where
  "update_first p f [] = []"
| "update_first p f (x # xs) = (if p x then f x # xs else x # update_first p f xs)"

text \<open>
  An assignment \<open>a[i] = v\<close> to a JavaScript array: inside the array the slot is
  overwritten, beyond its end the array grows (the slots in between are holes, written 0
  here: server.js never reads a slot above 7, and the array starts with 8 slots).
\<close>

definition array_set :: "int list \<Rightarrow> nat \<Rightarrow> int \<Rightarrow> int list" where
  "array_set xs i v =
     (if i < length xs then xs[i := v] else xs @ replicate (i - length xs) 0 @ [v])"

section \<open>Data model\<close>

type_synonym sid = string

record Timecode =
  tc_hours :: int
  tc_minutes :: int
  tc_seconds :: int
  tc_frames :: int
  tc_frameRate :: rat
  tc_source :: string

record Comment =
  c_id :: string
  c_user :: string
  c_userId :: sid
  c_text :: string
  c_timestamp :: string
  c_lastEdited :: "string option"
  c_lastEditedBy :: "string option"

record Note =
  n_id :: string
  n_user :: string
  n_userId :: sid
  n_text :: string
  n_timecode :: Timecode
  n_lxCue :: string
  n_timestamp :: string
  n_frameRate :: rat
  n_tags :: "string list"
  n_act :: string
  n_comments :: "Comment list"
  n_lastEdited :: "string option"
  n_lastEditedBy :: "string option"

record Tag =
  t_id :: string
  t_name :: string
  t_color :: string

record User =
  u_id :: sid
  u_name :: string
  u_isTyping :: bool
  u_currentTimecode :: "Timecode option"
  u_currentLxCue :: "string option"
  u_joinedAt :: string
  u_isOverlay :: bool
  u_isAnonymous :: bool

record ChatMessage =
  m_id :: string
  m_user :: string
  m_userId :: sid
  m_text :: string
  m_timestamp :: string

record AnonymousUser =
  a_joinedAt :: string
  a_ip :: string

text \<open>
  The state of the server: the fields of \<open>globalState\<close>, the variables of the timecode
  decoder (\<open>quarterFrameData\<close>, \<open>lastQuarterFrame\<close>, \<open>lastFullTimecode\<close>,
  \<open>mtcMessagesReceived\<close>), the name of the opened MIDI port and whether the MIDI input
  and the OSC server exist. The two \<open>Map\<close>s keep insertion order, so they are
  association lists: \<open>AList.update\<close> overwrites in place or appends, as \<open>Map.set\<close> does.

  The variable \<open>tags\<close> of line 33 and \<open>globalState.tags\<close> (line 74, \<open>tags: tags\<close>)
  start as one and the same array. \<open>tags\<close> is the array of \<open>globalState.tags\<close>,
  \<open>tagsVar\<close> the array of the variable, and \<open>tagsShared\<close> tells whether the two are
  still the same array, so that a change made in place to the first is a change of the second.
\<close>

record state =
  timecode :: Timecode
  "notes" :: "Note list"
  chatMessages :: "ChatMessage list"
  users :: "(sid \<times> User) list"
  timeMode :: string
  tags :: "Tag list"
  currentLxCue :: string
  currentAct :: string
  anonymousUsers :: "(sid \<times> AnonymousUser) list"
  quarterFrameData :: "int list"
  lastQuarterFrame :: int
  lastFullTimecode :: "Timecode option"
  mtcMessagesReceived :: nat
  openedPortName :: string
  midiInput :: bool
  oscServer :: bool
  tagsVar :: "Tag list"
  tagsShared :: bool

text \<open>What the server sends, and the other effects of a handler.\<close>

datatype message =
    ActUpdate string
  | TimecodeUpdate Timecode
  | NotesUpdate "Note list"
  | TagsUpdate "Tag list"
  | TimeModeUpdate string
  | LxCueUpdate string
  | SystemStatus bool nat string nat bool
  | UserInitialName string
  | UsersUpdate "User list"
  | UserJoined string nat
  | UserLeft string nat
  | NoteAdded Note
  | ChatMessageAdded ChatMessage
  | ChatMessagesUpdate "ChatMessage list"
  | NameChangeError string
  | NameChangeSuccess string
  | ExportData string string

datatype effect =
    IoEmit message
  | SocketEmit sid message
  | SaveTagsToFile "Tag list"
  | SetTimeout sid nat
  | SocketDisconnect sid

text \<open>
  \<open>IoEmit\<close> is \<open>io.emit\<close>: the message goes to every connected socket. \<open>SocketEmit\<close> is
  \<open>socket.emit\<close>: it goes to that socket only. Every connected socket has its entry in
  \<open>users\<close> (set on connection, deleted on disconnect), so the receivers of an effect
  are read from the state in which it is emitted.
\<close>

definition receivers :: "state \<Rightarrow> effect \<Rightarrow> sid list" where
  "receivers s e =
     (case e of
        IoEmit m \<Rightarrow> map fst (users s)
      | SocketEmit k m \<Rightarrow> [k]
      | _ \<Rightarrow> [])"

text \<open>
  The default tags of server.js (used when tags.json cannot be read) and the initial
  state. The tags read from tags.json are a parameter.
\<close>

definition default_tags :: "Tag list" where
  "default_tags =
     [\<lparr>t_id = ''safety'', t_name = ''Safety/Show Critical'', t_color = ''#E63946''\<rparr>,
      \<lparr>t_id = ''lighting'', t_name = ''Lighting'', t_color = ''#00B4D8''\<rparr>,
      \<lparr>t_id = ''sound'', t_name = ''Sound'', t_color = ''#06D6A0''\<rparr>,
      \<lparr>t_id = ''stage'', t_name = ''Stage'', t_color = ''#118AB2''\<rparr>,
      \<lparr>t_id = ''dsm'', t_name = ''DSM'', t_color = ''#8AC926''\<rparr>,
      \<lparr>t_id = ''set'', t_name = ''Set'', t_color = ''#FF6f91''\<rparr>]"

definition initial_state :: "Tag list \<Rightarrow> string option \<Rightarrow> bool \<Rightarrow> state" where
  "initial_state tgs port osc =
     \<lparr>timecode = \<lparr>tc_hours = 0, tc_minutes = 0, tc_seconds = 0, tc_frames = 0,
                   tc_frameRate = 30, tc_source = ''midi''\<rparr>,
      notes = [],
      chatMessages = [],
      users = [],
      timeMode = (if port = None then ''realtime'' else ''midi''),
      tags = tgs,
      currentLxCue = ''1'',
      currentAct = ''Preshow'',
      anonymousUsers = [],
      quarterFrameData = replicate 8 0,
      lastQuarterFrame = - 1,
      lastFullTimecode = None,
      mtcMessagesReceived = 0,
      openedPortName = (case port of None \<Rightarrow> ''None'' | Some p \<Rightarrow> p),
      midiInput = (port \<noteq> None),
      oscServer = osc,
      tagsVar = tgs,
      tagsShared = True\<rparr>"

section \<open>Timecode decoder\<close>

text \<open>The table \<open>frameRates\<close>; a code outside it reads \<open>undefined\<close>.\<close>

definition frameRates :: "int \<Rightarrow> rat option" where
  "frameRates code =
     (if code = 0 then Some 24 else if code = 1 then Some 25
      else if code = 2 then Some 29.97 else if code = 3 then Some 30 else None)"

text \<open>
  \<open>parseCompleteMTC\<close>, lines 192-207: the value \<open>newTimecode\<close> recombined from the
  buffer.
\<close>

definition newTimecode :: "int list \<Rightarrow> Timecode" where
  "newTimecode q =
     (let frames = js_or (js_shl (q ! 1) 4) (q ! 0);
          seconds = js_or (js_shl (q ! 3) 4) (q ! 2);
          minutes = js_or (js_shl (q ! 5) 4) (q ! 4);
          hoursAndRate = js_or (js_shl (q ! 7) 4) (q ! 6);
          hours = js_and hoursAndRate 0x1F;
          rateCode = js_and (js_sar hoursAndRate 5) 0x03
      in \<lparr>tc_hours = hours, tc_minutes = minutes, tc_seconds = seconds, tc_frames = frames,
          tc_frameRate = num_or (frameRates rateCode) 30, tc_source = ''midi''\<rparr>)"

text \<open>The test of lines 209-213: no timecode emitted yet, or one of four fields differs.\<close>

definition timecode_changed :: "Timecode option \<Rightarrow> Timecode \<Rightarrow> bool" where
  "timecode_changed prev new =
     (case prev of
        None \<Rightarrow> True
      | Some l \<Rightarrow> tc_hours l \<noteq> tc_hours new \<or> tc_minutes l \<noteq> tc_minutes new \<or>
                 tc_seconds l \<noteq> tc_seconds new \<or> tc_frames l \<noteq> tc_frames new)"

definition parseCompleteMTC :: "state \<Rightarrow> state \<times> effect list" where
  "parseCompleteMTC s =
     (let new = newTimecode (quarterFrameData s) in
      if timecode_changed (lastFullTimecode s) new
      then (s\<lparr>timecode := new, lastFullTimecode := Some new\<rparr>, [IoEmit (TimecodeUpdate new)])
      else (s, []))"

definition parseEasyMIDIMTC :: "state \<Rightarrow> nat \<Rightarrow> int \<Rightarrow> state \<times> effect list" where
  "parseEasyMIDIMTC s messageType v =
     (let s1 = s\<lparr>quarterFrameData := array_set (quarterFrameData s) messageType v,
                 mtcMessagesReceived := mtcMessagesReceived s + 1,
                 lastQuarterFrame := int messageType\<rparr>
      in if messageType = 7 then parseCompleteMTC s1 else (s1, []))"

text \<open>A stream of quarter-frame fragments, with the notifications it emits in order.\<close>

fun run_mtc :: "state \<Rightarrow> (nat \<times> int) list \<Rightarrow> state \<times> effect list" where
  "run_mtc s [] = (s, [])"
| "run_mtc s ((t, v) # fs) =
     (let r1 = parseEasyMIDIMTC s t v; r2 = run_mtc (fst r1) fs
      in (fst r2, snd r1 @ snd r2))"

section \<open>Cue and act extractor\<close>

text \<open>
  \<open>value.match(/[^/]+\/(.+)/)\<close>: the leftmost match of a non-empty run of characters
  other than \<open>/\<close>, a \<open>/\<close>, and a non-empty greedy run of characters other than line
  terminators, which is group 1. \<open>cue_match_here\<close> tries one start position: the run
  \<open>[^/]+\<close> can only end at the first \<open>/\<close> after the start, so no shorter run matches.
  \<open>cue_match\<close> tries the start positions from left to right. A matched group is never
  empty, so the test \<open>cueMatch && cueMatch[1]\<close> is the test that there is a match.
\<close>

definition is_line_terminator :: "char \<Rightarrow> bool" where
  "is_line_terminator c = (c = CHR 0x0A \<or> c = CHR 0x0D)"

definition cue_match_here :: "string \<Rightarrow> string option" where
  "cue_match_here s =
     (let run = takeWhile (\<lambda>c. c \<noteq> CHR ''/'') s;
          rest = dropWhile (\<lambda>c. c \<noteq> CHR ''/'') s
      in if run = [] then None
         else (case rest of
                 [] \<Rightarrow> None
               | slash # after \<Rightarrow>
                   (let g = takeWhile (\<lambda>c. \<not> is_line_terminator c) after
                    in if g = [] then None else Some g)))"

fun cue_match :: "string \<Rightarrow> string option" where
  "cue_match [] = None"
| "cue_match (c # cs) =
     (case cue_match_here (c # cs) of Some g \<Rightarrow> Some g | None \<Rightarrow> cue_match cs)"

text \<open>
  The handler of \<open>oscServer.on('message')\<close>, lines 117-157. \<open>v\<close> is \<open>msg[1]\<close>, the first
  argument of the message (\<open>None\<close> when there is none); an argument that is not a
  string is outside this model.
\<close>

definition osc_message :: "state \<Rightarrow> string \<Rightarrow> string option \<Rightarrow> state \<times> effect list" where
  "osc_message s address v =
     (let val = str_or v [] in
      if address = ''/eos/out/active/cue/text'' \<and> val \<noteq> [] then
        (case cue_match val of
           Some g \<Rightarrow>
             (let cueName = trim g
              in (s\<lparr>currentLxCue := cueName\<rparr>, [IoEmit (LxCueUpdate cueName)]))
         | None \<Rightarrow> (s, []))
      else if address = ''/eos/out/pending/cue/text'' \<and> val \<noteq> [] then (s, [])
      else if take 5 address = ''/bts/'' then
        (if val \<noteq> [] \<and> val \<noteq> currentAct s
         then (s\<lparr>currentAct := val\<rparr>, [IoEmit (ActUpdate val)])
         else (s, []))
      else (s, []))"

text \<open>A stream of OSC messages, with the notifications it emits in order.\<close>

fun run_osc :: "state \<Rightarrow> (string \<times> string option) list \<Rightarrow> state \<times> effect list" where
  "run_osc s [] = (s, [])"
| "run_osc s ((a, v) # ms) =
     (let r1 = osc_message s a v; r2 = run_osc (fst r1) ms
      in (fst r2, snd r1 @ snd r2))"

section \<open>Sessions\<close>

definition filteredUsers :: "state \<Rightarrow> User list" where
  "filteredUsers s = filter (\<lambda>u. \<not> u_isOverlay u) (map snd (users s))"

text \<open>
  \<open>clientIP.replace(/^.*:/, '')\<close>: what follows the last colon of the address (the
  address has no line terminator).
\<close>

definition userIP_of :: "string \<Rightarrow> string" where
  "userIP_of clientIP = rev (takeWhile (\<lambda>c. c \<noteq> CHR '':'') (rev clientIP))"

text \<open>
  The connection handler, lines 316-388 and 553-555. Its inputs are the socket id, the
  address of the client, whether the referer contains \<open>overlay.html\<close>, the date, and the
  number of MIDI ports read for the status message. The timer of lines 345-354 is the
  effect \<open>SetTimeout\<close> with its delay in milliseconds.
\<close>

definition connection ::
    "state \<Rightarrow> sid \<Rightarrow> string \<Rightarrow> bool \<Rightarrow> string \<Rightarrow> nat \<Rightarrow> state \<times> effect list" where
  "connection s k clientIP isOverlay now portCount =
     (let userIP = userIP_of clientIP;
          user = \<lparr>u_id = k, u_name = (if isOverlay then ''Overlay-'' @ userIP else userIP),
                  u_isTyping = False, u_currentTimecode = None, u_currentLxCue = None,
                  u_joinedAt = now, u_isOverlay = isOverlay, u_isAnonymous = \<not> isOverlay\<rparr>;
          s1 = s\<lparr>users := AList.update k user (users s)\<rparr>;
          s2 = (if \<not> isOverlay
                then s1\<lparr>anonymousUsers :=
                       AList.update k \<lparr>a_joinedAt = now, a_ip = userIP\<rparr> (anonymousUsers s1)\<rparr>
                else s1)
      in (s2,
          (if \<not> isOverlay then [SetTimeout k 900000] else []) @
          [SocketEmit k (ActUpdate (currentAct s2)),
           SocketEmit k (TimecodeUpdate (timecode s2)),
           SocketEmit k (NotesUpdate (notes s2)),
           SocketEmit k (TagsUpdate (tags s2)),
           SocketEmit k (TimeModeUpdate (timeMode s2)),
           SocketEmit k (LxCueUpdate (currentLxCue s2)),
           SocketEmit k (SystemStatus (midiInput s2) (if midiInput s2 then portCount else 0)
             (openedPortName s2) (mtcMessagesReceived s2) (oscServer s2))] @
          (if \<not> isOverlay
           then [SocketEmit k (UserInitialName userIP),
                 SocketEmit k (UsersUpdate (filteredUsers s2)),
                 IoEmit (UserJoined (u_name user) (length (filteredUsers s2)))]
           else [SocketEmit k (UsersUpdate [])]) @
          (if \<not> isOverlay then [SocketEmit k (ChatMessagesUpdate (chatMessages s2))] else [])))"

text \<open>The \<open>disconnect\<close> handler, lines 702-718.\<close>

definition disconnect :: "state \<Rightarrow> sid \<Rightarrow> state \<times> effect list" where
  "disconnect s k =
     (case map_of (users s) k of
        None \<Rightarrow> (s, [])
      | Some user \<Rightarrow>
          (let s1 = s\<lparr>users := AList.delete k (users s)\<rparr>
           in if \<not> u_isOverlay user
              then (s1, [IoEmit (UserLeft (u_name user) (length (filteredUsers s1))),
                         IoEmit (UsersUpdate (filteredUsers s1))])
              else (s1, [])))"

text \<open>
  The callback of the anonymity timer, lines 345-354. \<open>socket.disconnect(true)\<close> closes
  the socket, and its \<open>disconnect\<close> handler runs before the callback goes on.
\<close>

definition anonymity_timeout :: "state \<Rightarrow> sid \<Rightarrow> state \<times> effect list" where
  "anonymity_timeout s k =
     (let r = (case map_of (users s) k of
                 None \<Rightarrow> (s, [])
               | Some user \<Rightarrow>
                   if u_isAnonymous user \<and> \<not> u_isOverlay user
                   then (let d = disconnect s k in (fst d, SocketDisconnect k # snd d))
                   else (s, []))
      in ((fst r)\<lparr>anonymousUsers := AList.delete k (anonymousUsers (fst r))\<rparr>, snd r))"

section \<open>Handlers of the client events\<close>

text \<open>
  Each handler runs for the socket \<open>k\<close> of the connection that registered it. The object
  \<open>user\<close> of the closure is the entry of \<open>k\<close> in \<open>users\<close>; a socket that is not
  connected delivers no event, so without an entry nothing happens. The guarded
  handlers start with \<open>if (user.isOverlay) return\<close>, written \<open>as_participant\<close>.
  Identifiers, dates and random values come with the event.
\<close>

definition as_participant ::
    "state \<Rightarrow> sid \<Rightarrow> (User \<Rightarrow> state \<times> effect list) \<Rightarrow> state \<times> effect list" where
  "as_participant s k h =
     (case map_of (users s) k of
        None \<Rightarrow> (s, [])
      | Some user \<Rightarrow> if u_isOverlay user then (s, []) else h user)"

definition has_note :: "state \<Rightarrow> string \<Rightarrow> bool" where
  "has_note s noteId = (find (\<lambda>n. n_id n = noteId) (notes s) \<noteq> None)"

text \<open>\<open>note-update-tags\<close>, lines 391-399 (no test of \<open>user.isOverlay\<close>).\<close>

definition note_update_tags :: "state \<Rightarrow> string \<Rightarrow> string list \<Rightarrow> state \<times> effect list" where
  "note_update_tags s noteId tgs =
     (if has_note s noteId
      then (let s1 = s\<lparr>notes := update_first (\<lambda>n. n_id n = noteId)
                                   (\<lambda>n. n\<lparr>n_tags := tgs\<rparr>) (notes s)\<rparr>
            in (s1, [IoEmit (NotesUpdate (notes s1))]))
      else (s, []))"

text \<open>
  \<open>saveTagsToFile\<close>, lines 52-58, writes the array of the variable \<open>tags\<close> of line 33,
  not \<open>globalState.tags\<close>.
\<close>

definition saveTagsToFile :: "state \<Rightarrow> effect" where
  "saveTagsToFile s = SaveTagsToFile (tagsVar s)"

text \<open>
  \<open>create-tag\<close>, lines 402-418 (no test of \<open>user.isOverlay\<close>). The assignment at an index
  and \<open>push\<close> change the array of \<open>globalState.tags\<close> in place: the variable \<open>tags\<close> sees
  the change while it is that same array.
\<close>

definition create_tag ::
    "state \<Rightarrow> string option \<Rightarrow> string \<Rightarrow> string option \<Rightarrow> string \<Rightarrow> string
       \<Rightarrow> state \<times> effect list" where
  "create_tag s tid name color generatedId randomColor =
     (let newTag = \<lparr>t_id = str_or tid generatedId, t_name = name,
                    t_color = str_or color randomColor\<rparr>;
          tags1 = (if list_ex (\<lambda>t. t_id t = t_id newTag) (tags s)
                   then update_first (\<lambda>t. t_id t = t_id newTag) (\<lambda>t. newTag) (tags s)
                   else tags s @ [newTag]);
          s1 = s\<lparr>tags := tags1, tagsVar := (if tagsShared s then tags1 else tagsVar s)\<rparr>
      in (s1, [saveTagsToFile s1, IoEmit (TagsUpdate (tags s1))]))"

text \<open>
  \<open>delete-tag\<close>, lines 421-425 (no test of \<open>user.isOverlay\<close>). \<open>filter\<close> returns a new
  array, which becomes \<open>globalState.tags\<close>; the variable \<open>tags\<close> keeps the array it had,
  with the deleted tag in it, and that array is the one written to the file.
\<close>

definition delete_tag :: "state \<Rightarrow> string \<Rightarrow> state \<times> effect list" where
  "delete_tag s tagId =
     (let s1 = s\<lparr>tags := filter (\<lambda>t. t_id t \<noteq> tagId) (tags s), tagsShared := False\<rparr>
      in (s1, [saveTagsToFile s1, IoEmit (TagsUpdate (tags s1))]))"

text \<open>\<open>typing-start\<close> and \<open>typing-stop\<close>, lines 428-451.\<close>

definition typing_start ::
    "state \<Rightarrow> sid \<Rightarrow> Timecode option \<Rightarrow> string option \<Rightarrow> state \<times> effect list" where
  "typing_start s k tc lxCue =
     as_participant s k (\<lambda>user.
       let user1 = user\<lparr>u_isTyping := True,
                         u_currentTimecode := Some (case tc of Some t \<Rightarrow> t | None \<Rightarrow> timecode s),
                         u_currentLxCue := Some (str_or lxCue (currentLxCue s))\<rparr>;
           s1 = s\<lparr>users := AList.update k user1 (users s)\<rparr>
       in (s1, [IoEmit (UsersUpdate (filteredUsers s1))]))"

definition typing_stop :: "state \<Rightarrow> sid \<Rightarrow> state \<times> effect list" where
  "typing_stop s k =
     as_participant s k (\<lambda>user.
       let user1 = user\<lparr>u_isTyping := False, u_currentTimecode := None,
                         u_currentLxCue := None\<rparr>;
           s1 = s\<lparr>users := AList.update k user1 (users s)\<rparr>
       in (s1, [IoEmit (UsersUpdate (filteredUsers s1))]))"

text \<open>\<open>time-mode-change\<close>, lines 454-461.\<close>

definition time_mode_change :: "state \<Rightarrow> sid \<Rightarrow> string \<Rightarrow> state \<times> effect list" where
  "time_mode_change s k newMode =
     as_participant s k (\<lambda>user.
       if newMode = ''midi'' \<or> newMode = ''realtime''
       then (s\<lparr>timeMode := newMode\<rparr>, [IoEmit (TimeModeUpdate newMode)])
       else (s, []))"

text \<open>\<open>lx-cue-change\<close>, lines 464-476.\<close>

definition lx_cue_change :: "state \<Rightarrow> sid \<Rightarrow> string \<Rightarrow> state \<times> effect list" where
  "lx_cue_change s k newCue =
     as_participant s k (\<lambda>user.
       if \<not> oscServer s
       then (s\<lparr>currentLxCue := newCue\<rparr>, [IoEmit (LxCueUpdate newCue)])
       else (s, []))"

text \<open>\<open>note-submit\<close>, lines 479-502.\<close>

record NoteData =
  d_text :: string
  d_timecode :: "Timecode option"
  d_lxCue :: "string option"
  d_frameRate :: "rat option"
  d_tags :: "string list option"

definition note_submit ::
    "state \<Rightarrow> sid \<Rightarrow> NoteData \<Rightarrow> string \<Rightarrow> string \<Rightarrow> state \<times> effect list" where
  "note_submit s k d newId now =
     as_participant s k (\<lambda>user.
       let note = \<lparr>n_id = newId, n_user = u_name user, n_userId = u_id user, n_text = d_text d,
                   n_timecode = (case d_timecode d of Some t \<Rightarrow> t | None \<Rightarrow> timecode s),
                   n_lxCue = str_or (d_lxCue d) (currentLxCue s),
                   n_timestamp = now,
                   n_frameRate = num_or (d_frameRate d) (tc_frameRate (timecode s)),
                   n_tags = (case d_tags d of Some ts \<Rightarrow> ts | None \<Rightarrow> []),
                   n_act = currentAct s, n_comments = [],
                   n_lastEdited = None, n_lastEditedBy = None\<rparr>;
           s1 = s\<lparr>notes := notes s @ [note]\<rparr>
       in (s1, [IoEmit (NoteAdded note), IoEmit (NotesUpdate (notes s1))]))"

text \<open>\<open>comment-submit\<close>, lines 505-527.\<close>

definition comment_submit ::
    "state \<Rightarrow> sid \<Rightarrow> string \<Rightarrow> string \<Rightarrow> string \<Rightarrow> string \<Rightarrow> state \<times> effect list" where
  "comment_submit s k noteId text newId now =
     as_participant s k (\<lambda>user.
       if has_note s noteId
       then (let comment = \<lparr>c_id = newId, c_user = u_name user, c_userId = u_id user,
                             c_text = text, c_timestamp = now,
                             c_lastEdited = None, c_lastEditedBy = None\<rparr>;
                 s1 = s\<lparr>notes := update_first (\<lambda>n. n_id n = noteId)
                        (\<lambda>n. n\<lparr>n_comments := n_comments n @ [comment]\<rparr>) (notes s)\<rparr>
             in (s1, [IoEmit (NotesUpdate (notes s1))]))
       else (s, []))"

text \<open>\<open>chat-message\<close>, lines 530-550. \<open>slice(-100)\<close> keeps the last 100 elements.\<close>

definition chat_message ::
    "state \<Rightarrow> sid \<Rightarrow> string \<Rightarrow> string \<Rightarrow> string \<Rightarrow> state \<times> effect list" where
  "chat_message s k text newId now =
     as_participant s k (\<lambda>user.
       let chatMessage = \<lparr>m_id = newId, m_user = u_name user, m_userId = u_id user,
                          m_text = text, m_timestamp = now\<rparr>;
           pushed = chatMessages s @ [chatMessage];
           kept = (if length pushed > 100 then drop (length pushed - 100) pushed else pushed);
           s1 = s\<lparr>chatMessages := kept\<rparr>
       in (s1, [IoEmit (ChatMessageAdded chatMessage),
                IoEmit (ChatMessagesUpdate (chatMessages s1))]))"

text \<open>\<open>note-edit-text\<close>, lines 558-572.\<close>

definition note_edit_text ::
    "state \<Rightarrow> sid \<Rightarrow> string \<Rightarrow> string \<Rightarrow> string \<Rightarrow> state \<times> effect list" where
  "note_edit_text s k noteId newText now =
     as_participant s k (\<lambda>user.
       if has_note s noteId
       then (let s1 = s\<lparr>notes := update_first (\<lambda>n. n_id n = noteId)
                        (\<lambda>n. n\<lparr>n_text := newText, n_lastEdited := Some now,
                                n_lastEditedBy := Some (u_name user)\<rparr>) (notes s)\<rparr>
             in (s1, [IoEmit (NotesUpdate (notes s1))]))
       else (s, []))"

text \<open>
  \<open>comment-edit\<close>, lines 575-592. An array is truthy, and every note is made with
  the array \<open>comments\<close>, so \<open>note && note.comments\<close> is the test that the note exists.
\<close>

definition comment_edit ::
    "state \<Rightarrow> sid \<Rightarrow> string \<Rightarrow> string \<Rightarrow> string \<Rightarrow> string \<Rightarrow> state \<times> effect list" where
  "comment_edit s k noteId commentId newText now =
     as_participant s k (\<lambda>user.
       case find (\<lambda>n. n_id n = noteId) (notes s) of
         None \<Rightarrow> (s, [])
       | Some note \<Rightarrow>
           if find (\<lambda>c. c_id c = commentId) (n_comments note) \<noteq> None
           then (let s1 = s\<lparr>notes := update_first (\<lambda>n. n_id n = noteId)
                          (\<lambda>n. n\<lparr>n_comments := update_first (\<lambda>c. c_id c = commentId)
                             (\<lambda>c. c\<lparr>c_text := newText, c_lastEdited := Some now,
                                     c_lastEditedBy := Some (u_name user)\<rparr>)
                             (n_comments n)\<rparr>) (notes s)\<rparr>
                 in (s1, [IoEmit (NotesUpdate (notes s1))]))
           else (s, []))"

text \<open>\<open>comment-delete\<close>, lines 595-605.\<close>

definition comment_delete ::
    "state \<Rightarrow> sid \<Rightarrow> string \<Rightarrow> string \<Rightarrow> state \<times> effect list" where
  "comment_delete s k noteId commentId =
     as_participant s k (\<lambda>user.
       if has_note s noteId
       then (let s1 = s\<lparr>notes := update_first (\<lambda>n. n_id n = noteId)
                        (\<lambda>n. n\<lparr>n_comments := filter (\<lambda>c. c_id c \<noteq> commentId) (n_comments n)\<rparr>)
                        (notes s)\<rparr>
             in (s1, [IoEmit (NotesUpdate (notes s1))]))
       else (s, []))"

text \<open>\<open>user-name-change\<close>, lines 608-652.\<close>

definition rename_comment :: "sid \<Rightarrow> string \<Rightarrow> Comment \<Rightarrow> Comment" where
  "rename_comment uid newName c = (if c_userId c = uid then c\<lparr>c_user := newName\<rparr> else c)"

definition rename_note :: "sid \<Rightarrow> string \<Rightarrow> Note \<Rightarrow> Note" where
  "rename_note uid newName note =
     (if n_userId note = uid then note\<lparr>n_user := newName\<rparr> else note)
       \<lparr>n_comments := map (rename_comment uid newName) (n_comments note)\<rparr>"

definition isNameTaken :: "state \<Rightarrow> User \<Rightarrow> string \<Rightarrow> bool" where
  "isNameTaken s user newName =
     list_ex (\<lambda>u. u_id u \<noteq> u_id user \<and> toLowerCase (u_name u) = toLowerCase newName \<and>
                  \<not> u_isOverlay u) (map snd (users s))"

definition user_name_change :: "state \<Rightarrow> sid \<Rightarrow> string \<Rightarrow> state \<times> effect list" where
  "user_name_change s k newName =
     as_participant s k (\<lambda>user.
       if isNameTaken s user newName
       then (s, [SocketEmit k (NameChangeError
                   (''Name '' @ [CHR 0x22] @ newName @ [CHR 0x22] @
                    '' is already taken. Please choose a different name.''))])
       else (let oldName = u_name user;
                 user1 = user\<lparr>u_name := newName, u_isAnonymous := False\<rparr>;
                 s1 = s\<lparr>users := AList.update k user1 (users s),
                        anonymousUsers := AList.delete k (anonymousUsers s),
                        notes := map (rename_note (u_id user) newName) (notes s)\<rparr>
             in (s1, [IoEmit (UsersUpdate (filteredUsers s1)),
                      IoEmit (NotesUpdate (notes s1)),
                      SocketEmit k (NameChangeSuccess
                        (''Name changed from '' @ [CHR 0x22] @ oldName @ [CHR 0x22] @
                         '' to '' @ [CHR 0x22] @ newName @ [CHR 0x22]))])))"

text \<open>
  \<open>export-request\<close>, lines 655-700. The state is only read; the message carries the
  requested format and the date, and lays out the notes as JSON or CSV (the layout is not
  modelled).
\<close>

definition export_request :: "state \<Rightarrow> sid \<Rightarrow> string \<Rightarrow> string \<Rightarrow> state \<times> effect list" where
  "export_request s k format now =
     as_participant s k (\<lambda>user. (s, [SocketEmit k (ExportData format now)]))"

text \<open>The events a client sends, and the handler each one runs.\<close>

datatype client_event =
    Note_Update_Tags string "string list"
  | Create_Tag "string option" string "string option" string string
  | Delete_Tag string
  | Typing_Start "Timecode option" "string option"
  | Typing_Stop
  | Time_Mode_Change string
  | Lx_Cue_Change string
  | Note_Submit NoteData string string
  | Comment_Submit string string string string
  | Chat_Message string string string
  | Note_Edit_Text string string string
  | Comment_Edit string string string string
  | Comment_Delete string string
  | User_Name_Change string
  | Export_Request string string
  | Disconnect

definition handle :: "state \<Rightarrow> sid \<Rightarrow> client_event \<Rightarrow> state \<times> effect list" where
  "handle s k ev =
     (case ev of
        Note_Update_Tags noteId tgs \<Rightarrow> note_update_tags s noteId tgs
      | Create_Tag tid name color generatedId randomColor \<Rightarrow>
          create_tag s tid name color generatedId randomColor
      | Delete_Tag tagId \<Rightarrow> delete_tag s tagId
      | Typing_Start tc lxCue \<Rightarrow> typing_start s k tc lxCue
      | Typing_Stop \<Rightarrow> typing_stop s k
      | Time_Mode_Change newMode \<Rightarrow> time_mode_change s k newMode
      | Lx_Cue_Change newCue \<Rightarrow> lx_cue_change s k newCue
      | Note_Submit d newId now \<Rightarrow> note_submit s k d newId now
      | Comment_Submit noteId text newId now \<Rightarrow> comment_submit s k noteId text newId now
      | Chat_Message text newId now \<Rightarrow> chat_message s k text newId now
      | Note_Edit_Text noteId newText now \<Rightarrow> note_edit_text s k noteId newText now
      | Comment_Edit noteId commentId newText now \<Rightarrow>
          comment_edit s k noteId commentId newText now
      | Comment_Delete noteId commentId \<Rightarrow> comment_delete s k noteId commentId
      | User_Name_Change newName \<Rightarrow> user_name_change s k newName
      | Export_Request format now \<Rightarrow> export_request s k format now
      | Disconnect \<Rightarrow> disconnect s k)"

definition client :: "state \<Rightarrow> sid \<Rightarrow> client_event \<Rightarrow> state \<times> effect list" where
  "client s k ev = (if map_of (users s) k = None then (s, []) else handle s k ev)"

text \<open>A stream of events of clients, with the effects in order.\<close>

fun run_clients :: "state \<Rightarrow> (sid \<times> client_event) list \<Rightarrow> state \<times> effect list" where
  "run_clients s [] = (s, [])"
| "run_clients s ((k, ev) # es) =
     (let r1 = client s k ev; r2 = run_clients (fst r1) es
      in (fst r2, snd r1 @ snd r2))"

section \<open>The server as a whole\<close>

datatype input =
    Midi nat int
  | Osc string "string option"
  | Connection sid string bool string nat
  | Client sid client_event

definition step :: "state \<Rightarrow> input \<Rightarrow> state \<times> effect list" where
  "step s i =
     (case i of
        Midi messageType v \<Rightarrow> parseEasyMIDIMTC s messageType v
      | Osc address v \<Rightarrow> osc_message s address v
      | Connection k clientIP isOverlay now portCount \<Rightarrow>
          connection s k clientIP isOverlay now portCount
      | Client k ev \<Rightarrow> client s k ev)"

text \<open>
  Time is the time of the event loop in milliseconds. A pending timer is the time at which
  it is due and the socket whose callback it runs; \<open>setTimeout\<close> runs a callback once and
  forgets it. Before an input that arrives at time \<open>t\<close> is handled, the callbacks due by
  \<open>t\<close> have run, each at the time it was due. The effects are logged with their times.
\<close>

record world =
  server :: state
  clock :: nat
  timers :: "(nat \<times> sid) list"

fun fire_due ::
    "state \<Rightarrow> (nat \<times> sid) list \<Rightarrow> nat \<Rightarrow> state \<times> (nat \<times> sid) list \<times> (nat \<times> effect) list" where
  "fire_due s [] t = (s, [], [])"
| "fire_due s ((due, k) # ts) t =
     (if due \<le> t
      then (let r1 = anonymity_timeout s k; r2 = fire_due (fst r1) ts t
            in (fst r2, fst (snd r2), map (Pair due) (snd r1) @ snd (snd r2)))
      else (let r2 = fire_due s ts t
            in (fst r2, (due, k) # fst (snd r2), snd (snd r2))))"

fun new_timers :: "nat \<Rightarrow> effect list \<Rightarrow> (nat \<times> sid) list" where
  "new_timers t [] = []"
| "new_timers t (SetTimeout k delay # es) = (t + delay, k) # new_timers t es"
| "new_timers t (e # es) = new_timers t es"

definition deliver :: "world \<Rightarrow> nat \<times> input \<Rightarrow> world \<times> (nat \<times> effect) list" where
  "deliver w ti =
     (let t = max (fst ti) (clock w);
          f = fire_due (server w) (timers w) t;
          r = step (fst f) (snd ti)
      in (\<lparr>server = fst r, clock = t, timers = fst (snd f) @ new_timers t (snd r)\<rparr>,
          snd (snd f) @ map (Pair t) (snd r)))"

fun run :: "world \<Rightarrow> (nat \<times> input) list \<Rightarrow> world \<times> (nat \<times> effect) list" where
  "run w [] = (w, [])"
| "run w (ti # tis) =
     (let r1 = deliver w ti; r2 = run (fst r1) tis
      in (fst r2, snd r1 @ snd r2))"

section \<open>Notions used to state the properties\<close>

text \<open>A buffer whose slots 0-7 exist and hold nibbles.\<close>

definition nibble_buffer :: "int list \<Rightarrow> bool" where
  "nibble_buffer q = (8 \<le> length q \<and> (\<forall>i<8. 0 \<le> q ! i \<and> q ! i < 16))"

text \<open>The canonical timecode is the last full timecode, once there is one.\<close>

definition canonical_inv :: "state \<Rightarrow> bool" where
  "canonical_inv s = (case lastFullTimecode s of None \<Rightarrow> True | Some l \<Rightarrow> timecode s = l)"

text \<open>The timecode of the last \<open>timecode-update\<close> among the effects, if there is one.\<close>

fun last_timecode_update :: "effect list \<Rightarrow> Timecode option" where
  "last_timecode_update [] = None"
| "last_timecode_update (e # es) =
     (case last_timecode_update es of
        Some t \<Rightarrow> Some t
      | None \<Rightarrow> (case e of IoEmit (TimecodeUpdate t) \<Rightarrow> Some t | _ \<Rightarrow> None))"

text \<open>
  The events whose handler starts with the test of \<open>user.isOverlay\<close>: all but the three
  tag events and \<open>disconnect\<close>.
\<close>

definition guarded_event :: "client_event \<Rightarrow> bool" where
  "guarded_event ev =
     (case ev of
        Note_Update_Tags noteId tgs \<Rightarrow> False
      | Create_Tag tid name color generatedId randomColor \<Rightarrow> False
      | Delete_Tag tagId \<Rightarrow> False
      | Disconnect \<Rightarrow> False
      | _ \<Rightarrow> True)"

text \<open>
  Two states reached from the initial state. In \<open>one_participant\<close> a participant has
  connected. In \<open>overlay_scene\<close> a participant has connected and submitted a note, and
  then an overlay has connected.
\<close>

definition one_participant :: state where
  "one_participant =
     fst (connection (initial_state default_tags (Some ''IAC Driver Bus 1'') True)
            ''p'' ''::ffff:10.0.0.7'' False ''t0'' 2)"

definition overlay_scene :: state where
  "overlay_scene =
     (let s0 = initial_state default_tags None True;
          s1 = fst (connection s0 ''p'' ''::ffff:10.0.0.7'' False ''t0'' 0);
          s2 = fst (client s1 ''p'' (Note_Submit
                 \<lparr>d_text = ''blackout late'', d_timecode = None, d_lxCue = None,
                  d_frameRate = None, d_tags = None\<rparr> ''n1'' ''t1''))
      in fst (connection s2 ''ov'' ''::ffff:10.0.0.9'' True ''t2'' 0))"

text \<open>
  A connected session that is not an overlay. A chat submission is the socket, the text,
  and the identifier and date the handler draws; \<open>chat_event\<close> is the event it sends and
  \<open>sent_messages\<close> the message the handler makes of it: none when the socket is not
  connected or is an overlay. \<open>chat_105\<close> is 105 submissions of one participant, with
  identifiers of growing length.
\<close>

definition is_participant :: "state \<Rightarrow> sid \<Rightarrow> bool" where
  "is_participant s k = (case map_of (users s) k of Some u \<Rightarrow> \<not> u_isOverlay u | None \<Rightarrow> False)"

definition chat_event :: "sid \<times> string \<times> string \<times> string \<Rightarrow> sid \<times> client_event" where
  "chat_event x = (case x of (k, text, newId, now) \<Rightarrow> (k, Chat_Message text newId now))"

definition sent_messages ::
    "state \<Rightarrow> sid \<times> string \<times> string \<times> string \<Rightarrow> ChatMessage list" where
  "sent_messages s x =
     (case x of (k, text, newId, now) \<Rightarrow>
        (case map_of (users s) k of
           None \<Rightarrow> []
         | Some u \<Rightarrow>
             if u_isOverlay u then []
             else [\<lparr>m_id = newId, m_user = u_name u, m_userId = u_id u, m_text = text,
                    m_timestamp = now\<rparr>]))"

definition chat_105 :: "(sid \<times> string \<times> string \<times> string) list" where
  "chat_105 = map (\<lambda>i. (''p'', ''standby'', replicate i (CHR ''m''), ''t1'')) [0..<105]"

text \<open>
  The entries of \<open>users\<close> have distinct sockets, and the \<open>id\<close> of a user is its socket.
  The initial state is so, and every step keeps it.
\<close>

definition wf_users :: "state \<Rightarrow> bool" where
  "wf_users s = (distinct (map fst (users s)) \<and> list_all (\<lambda>x. u_id (snd x) = fst x) (users s))"

text \<open>
  Some session other than \<open>k\<close> that is not an overlay holds the name, letter case
  apart.
\<close>

definition name_held_by_other :: "state \<Rightarrow> sid \<Rightarrow> string \<Rightarrow> bool" where
  "name_held_by_other s k newName =
     list_ex (\<lambda>x. fst x \<noteq> k \<and> \<not> u_isOverlay (snd x) \<and>
                  toLowerCase (u_name (snd x)) = toLowerCase newName) (users s)"

text \<open>
  The events other than the name change and the disconnection, and the effects other
  than a forced disconnection, a timer and a \<open>name-change-success\<close>.
\<close>

definition plain_event :: "client_event \<Rightarrow> bool" where
  "plain_event ev =
     (case ev of User_Name_Change newName \<Rightarrow> False | Disconnect \<Rightarrow> False | _ \<Rightarrow> True)"

definition quiet_effect :: "effect \<Rightarrow> bool" where
  "quiet_effect e =
     (case e of
        SocketDisconnect k \<Rightarrow> False
      | SetTimeout k d \<Rightarrow> False
      | SocketEmit k (NameChangeSuccess m) \<Rightarrow> False
      | _ \<Rightarrow> True)"

text \<open>
  A state reached from the initial state: two participants have connected, the second has
  taken the name Alice, the first has submitted a note, and both have commented on it.
\<close>

definition rename_scene :: state where
  "rename_scene =
     (let s0 = initial_state default_tags None True;
          s1 = fst (connection s0 ''p'' ''::ffff:10.0.0.7'' False ''t0'' 0);
          s2 = fst (connection s1 ''q'' ''::ffff:10.0.0.8'' False ''t1'' 0);
          s3 = fst (client s2 ''q'' (User_Name_Change ''Alice''));
          s4 = fst (client s3 ''p'' (Note_Submit
                 \<lparr>d_text = ''cue 12 late'', d_timecode = None, d_lxCue = None,
                  d_frameRate = None, d_tags = None\<rparr> ''n1'' ''t2''));
          s5 = fst (client s4 ''q'' (Comment_Submit ''n1'' ''agreed'' ''c1'' ''t3''))
      in fst (client s5 ''p'' (Comment_Submit ''n1'' ''fixed'' ''c2'' ''t4'')))"

text \<open>
  The same state after the second participant has taken a name that begins with a small
  e with an acute accent, U+00E9.
\<close>

definition accent_scene :: state where
  "accent_scene = fst (client rename_scene ''q'' (User_Name_Change (CHR 0xE9 # ''milie'')))"

text \<open>
  The messages about the roster and the chat; the effects that broadcast one, and those
  that send one by any means; the roster that an effect carries; and the property that
  no roster among the effects lists an overlay.
\<close>

definition roster_or_chat :: "message \<Rightarrow> bool" where
  "roster_or_chat m =
     (case m of
        UsersUpdate us \<Rightarrow> True
      | UserJoined n c \<Rightarrow> True
      | UserLeft n c \<Rightarrow> True
      | ChatMessageAdded x \<Rightarrow> True
      | ChatMessagesUpdate xs \<Rightarrow> True
      | _ \<Rightarrow> False)"

definition roster_or_chat_broadcast :: "effect \<Rightarrow> bool" where
  "roster_or_chat_broadcast e = (case e of IoEmit m \<Rightarrow> roster_or_chat m | _ \<Rightarrow> False)"

definition roster_or_chat_sent :: "effect \<Rightarrow> bool" where
  "roster_or_chat_sent e =
     (case e of IoEmit m \<Rightarrow> roster_or_chat m | SocketEmit k m \<Rightarrow> roster_or_chat m | _ \<Rightarrow> False)"

definition roster_of :: "effect \<Rightarrow> User list" where
  "roster_of e =
     (case e of
        IoEmit (UsersUpdate us) \<Rightarrow> us
      | SocketEmit k (UsersUpdate us) \<Rightarrow> us
      | _ \<Rightarrow> [])"

definition no_overlay_listed :: "effect list \<Rightarrow> bool" where
  "no_overlay_listed es = list_all (\<lambda>e. list_all (\<lambda>u. \<not> u_isOverlay u) (roster_of e)) es"

text \<open>
  Notions for the anonymity timer. \<open>anon_at\<close> is the test of the timer callback: the
  session is connected, anonymous and not an overlay. \<open>forced\<close> picks the forced
  disconnections of a session in a log, \<open>renamed\<close> says that a log has a
  \<open>name-change-success\<close> for the session, \<open>left_before\<close> that the session disconnects by
  itself before a given time, \<open>connects\<close> that an input is a connection of the socket,
  and \<open>timer_of\<close> picks the pending timers of a socket.
\<close>

definition anon_at :: "state \<Rightarrow> sid \<Rightarrow> bool" where
  "anon_at s k =
     (case map_of (users s) k of Some u \<Rightarrow> u_isAnonymous u \<and> \<not> u_isOverlay u | None \<Rightarrow> False)"

definition registered :: "state \<Rightarrow> sid \<Rightarrow> bool" where
  "registered s k = (map_of (users s) k \<noteq> None)"

definition name_change_success_to :: "sid \<Rightarrow> effect \<Rightarrow> bool" where
  "name_change_success_to k e =
     (case e of SocketEmit k' (NameChangeSuccess m) \<Rightarrow> k' = k | _ \<Rightarrow> False)"

definition forced :: "sid \<Rightarrow> nat \<times> effect \<Rightarrow> bool" where
  "forced k x = (snd x = SocketDisconnect k)"

definition renamed :: "sid \<Rightarrow> (nat \<times> effect) list \<Rightarrow> bool" where
  "renamed k lg = list_ex (\<lambda>x. name_change_success_to k (snd x)) lg"

definition left_before :: "sid \<Rightarrow> nat \<Rightarrow> (nat \<times> input) list \<Rightarrow> bool" where
  "left_before k due tis = list_ex (\<lambda>x. fst x < due \<and> snd x = Client k Disconnect) tis"

definition connects :: "sid \<Rightarrow> input \<Rightarrow> bool" where
  "connects k i = (case i of Connection k' ip ov now pc \<Rightarrow> k' = k | _ \<Rightarrow> False)"

definition timer_of :: "sid \<Rightarrow> nat \<times> sid \<Rightarrow> bool" where
  "timer_of k x = (snd x = k)"


text \<open>
  The timer of a session is armed in a world: the session passes the test of the
  callback, exactly one timer of its socket is pending, and it is not due yet.
  \<open>no_connection\<close>: no input is a connection of the socket (socket ids are not reused).
\<close>

definition armed :: "sid \<Rightarrow> nat \<Rightarrow> world \<Rightarrow> bool" where
  "armed k due w =
     (anon_at (server w) k \<and> filter (timer_of k) (timers w) = [(due, k)] \<and> clock w < due)"

definition no_connection :: "sid \<Rightarrow> (nat \<times> input) list \<Rightarrow> bool" where
  "no_connection k tis = (\<not> list_ex (\<lambda>x. connects k (snd x)) tis)"


text \<open>
  An input that asks for a new name for the session, and a world at time 0 with the
  initial state and no timer.
\<close>

definition rename_by :: "sid \<Rightarrow> input \<Rightarrow> bool" where
  "rename_by k i = (case i of Client k' (User_Name_Change n) \<Rightarrow> k' = k | _ \<Rightarrow> False)"

definition quiet_world :: world where
  "quiet_world = \<lparr>server = initial_state default_tags None True, clock = 0, timers = []\<rparr>"

section \<open>The timecode decoder: lemmas\<close>


lemma ToInt32_small: "- (2 ^ 31) \<le> x \<Longrightarrow> x < 2 ^ 31 \<Longrightarrow> ToInt32 x = x"
  unfolding ToInt32_def by (rule signed_take_bit_int_eq_self) simp_all

lemma push4_bounds: "0 \<le> a \<Longrightarrow> a < 16 \<Longrightarrow> 0 \<le> push_bit 4 a \<and> push_bit 4 a < (256::int)"
  by (simp add: push_bit_eq_mult)

lemma or_nibbles_bounds:
  assumes "0 \<le> a" "a < 16" "0 \<le> b" "b < (16::int)"
  shows "0 \<le> push_bit 4 a OR b \<and> push_bit 4 a OR b < 256"
proof -
  have "push_bit 4 a OR b < 2 ^ 8"
    using assms by (intro OR_upper) (simp_all add: push_bit_eq_mult)
  moreover have "0 \<le> push_bit 4 a OR b" using assms by simp
  ultimately show ?thesis by simp
qed

lemma js_nibbles:
  assumes "0 \<le> a" "a < 16" "0 \<le> b" "b < (16::int)"
  shows "js_or (js_shl a 4) b = push_bit 4 a OR b"
proof -
  have "ToInt32 a = a" "ToInt32 b = b" using assms by (simp_all add: ToInt32_small)
  moreover have "ToInt32 (16 * a) = 16 * a"
    by (rule ToInt32_small) (use assms in simp_all)
  then have "ToInt32 (push_bit 4 a) = push_bit 4 a"
    by (simp add: push_bit_eq_mult mult.commute)
  ultimately show ?thesis by (simp add: js_or_def js_shl_def)
qed

lemma js_and_small:
  assumes "0 \<le> x" "x < (256::int)" "0 \<le> m" "m < 256"
  shows "js_and x m = x AND m"
  using assms by (simp add: js_and_def ToInt32_small)

lemma js_sar_small:
  assumes "0 \<le> x" "x < (256::int)"
  shows "js_sar x 5 = drop_bit 5 x" "0 \<le> drop_bit 5 x" "drop_bit 5 x < 256"
  using assms by (simp_all add: js_sar_def ToInt32_small drop_bit_eq_div) 


lemma newTimecode_nibbles:
  assumes "nibble_buffer q"
  shows "tc_frames (newTimecode q) = push_bit 4 (q ! 1) OR (q ! 0)"
    and "tc_seconds (newTimecode q) = push_bit 4 (q ! 3) OR (q ! 2)"
    and "tc_minutes (newTimecode q) = push_bit 4 (q ! 5) OR (q ! 4)"
    and "tc_hours (newTimecode q) = (push_bit 4 (q ! 7) OR (q ! 6)) AND 0x1F"
    and "tc_frameRate (newTimecode q) =
          (let code = drop_bit 5 (push_bit 4 (q ! 7) OR (q ! 6)) AND 0x03
           in if code = 0 then 24 else if code = 1 then 25 else if code = 2 then 29.97 else 30)"
proof -
  have n: "\<And>i. i < 8 \<Longrightarrow> 0 \<le> q ! i \<and> q ! i < 16"
    using assms by (simp add: nibble_buffer_def)
  have j: "\<And>i k. i < 8 \<Longrightarrow> k < 8 \<Longrightarrow> js_or (js_shl (q ! i) 4) (q ! k) = push_bit 4 (q ! i) OR (q ! k)"
    using n by (simp add: js_nibbles)
  have b: "0 \<le> push_bit 4 (q ! 7) OR (q ! 6) \<and> push_bit 4 (q ! 7) OR (q ! 6) < 256"
    using n[of 7] n[of 6] by (intro or_nibbles_bounds) simp_all
  show "tc_frames (newTimecode q) = push_bit 4 (q ! 1) OR (q ! 0)"
    by (simp add: newTimecode_def Let_def j)
  show "tc_seconds (newTimecode q) = push_bit 4 (q ! 3) OR (q ! 2)"
    by (simp add: newTimecode_def Let_def j)
  show "tc_minutes (newTimecode q) = push_bit 4 (q ! 5) OR (q ! 4)"
    by (simp add: newTimecode_def Let_def j)
  show "tc_hours (newTimecode q) = (push_bit 4 (q ! 7) OR (q ! 6)) AND 0x1F"
    using b by (simp add: newTimecode_def Let_def j js_and_small)
  have "js_and (js_sar (push_bit 4 (q ! 7) OR (q ! 6)) 5) 3 = drop_bit 5 (push_bit 4 (q ! 7) OR (q ! 6)) AND 3"
    using b js_sar_small[of "push_bit 4 (q ! 7) OR (q ! 6)"] by (simp add: js_and_small)
  then show "tc_frameRate (newTimecode q) =
          (let code = drop_bit 5 (push_bit 4 (q ! 7) OR (q ! 6)) AND 0x03
           in if code = 0 then 24 else if code = 1 then 25 else if code = 2 then 29.97 else 30)"
    by (simp add: newTimecode_def Let_def j frameRates_def num_or_def)
qed

lemma array_set_nibble:
  assumes "nibble_buffer q" "0 \<le> v" "v < 16"
  shows "nibble_buffer (array_set q t v)"
  using assms by (auto simp: nibble_buffer_def array_set_def nth_list_update nth_append)

lemma qfd_parse [simp]:
  "quarterFrameData (fst (parseEasyMIDIMTC s t v)) = array_set (quarterFrameData s) t v"
  by (simp add: parseEasyMIDIMTC_def parseCompleteMTC_def Let_def)

lemma run_mtc_Cons:
  "fst (run_mtc s ((t, v) # fs)) = fst (run_mtc (fst (parseEasyMIDIMTC s t v)) fs)"
  "snd (run_mtc s ((t, v) # fs)) =
     snd (parseEasyMIDIMTC s t v) @ snd (run_mtc (fst (parseEasyMIDIMTC s t v)) fs)"
  by (simp_all add: Let_def)

lemma run_mtc_nibble:
  assumes "nibble_buffer (quarterFrameData s)" "\<forall>(t, v) \<in> set fs. 0 \<le> v \<and> v < 16"
  shows "nibble_buffer (quarterFrameData (fst (run_mtc s fs)))"
  using assms
proof (induction fs arbitrary: s)
  case Nil
  then show ?case by simp
next
  case (Cons f fs)
  obtain t v where f: "f = (t, v)" by (cases f)
  have "nibble_buffer (quarterFrameData (fst (parseEasyMIDIMTC s t v)))"
    using Cons.prems f by (simp add: array_set_nibble)
  then have "nibble_buffer (quarterFrameData (fst (run_mtc (fst (parseEasyMIDIMTC s t v)) fs)))"
    using Cons.prems by (intro Cons.IH) simp_all
  then show ?case by (simp only: f run_mtc_Cons)
qed

lemma initial_nibble: "nibble_buffer (quarterFrameData (initial_state tgs port osc))"
  by (simp add: nibble_buffer_def initial_state_def)



lemma parse_canonical_inv:
  "canonical_inv s \<Longrightarrow> canonical_inv (fst (parseEasyMIDIMTC s t v))"
  by (simp add: canonical_inv_def parseEasyMIDIMTC_def parseCompleteMTC_def Let_def split: option.splits)

lemma run_mtc_canonical_inv:
  "canonical_inv s \<Longrightarrow> canonical_inv (fst (run_mtc s fs))"
proof (induction fs arbitrary: s)
  case Nil
  then show ?case by simp
next
  case (Cons f fs)
  obtain t v where f: "f = (t, v)" by (cases f)
  show ?case using Cons by (simp only: f run_mtc_Cons parse_canonical_inv)
qed

lemma parse7_canonical:
  assumes "canonical_inv s"
  shows "\<not> timecode_changed (Some (timecode (fst (parseEasyMIDIMTC s 7 v))))
           (newTimecode (quarterFrameData (fst (parseEasyMIDIMTC s 7 v))))"
  using assms
  by (auto simp: canonical_inv_def parseEasyMIDIMTC_def parseCompleteMTC_def Let_def timecode_changed_def split: option.splits)


lemma last_timecode_update_append:
  "last_timecode_update (xs @ ys) =
     (case last_timecode_update ys of Some t \<Rightarrow> Some t | None \<Rightarrow> last_timecode_update xs)"
  by (induction xs) (auto split: option.splits)

lemma parse_effects:
  "snd (parseEasyMIDIMTC s t v) =
     (if t = 7 \<and> timecode_changed (lastFullTimecode s) (newTimecode (array_set (quarterFrameData s) t v))
      then [IoEmit (TimecodeUpdate (newTimecode (array_set (quarterFrameData s) t v)))] else [])"
  by (simp add: parseEasyMIDIMTC_def parseCompleteMTC_def Let_def)

lemma parse_lastFull:
  "lastFullTimecode (fst (parseEasyMIDIMTC s t v)) =
     (if t = 7 \<and> timecode_changed (lastFullTimecode s) (newTimecode (array_set (quarterFrameData s) t v))
      then Some (newTimecode (array_set (quarterFrameData s) t v)) else lastFullTimecode s)"
  by (simp add: parseEasyMIDIMTC_def parseCompleteMTC_def Let_def)

lemma parse_timecode:
  "timecode (fst (parseEasyMIDIMTC s t v)) =
     (if t = 7 \<and> timecode_changed (lastFullTimecode s) (newTimecode (array_set (quarterFrameData s) t v))
      then newTimecode (array_set (quarterFrameData s) t v) else timecode s)"
  by (simp add: parseEasyMIDIMTC_def parseCompleteMTC_def Let_def)

lemma run_mtc_lastFull:
  "lastFullTimecode (fst (run_mtc s fs)) =
     (case last_timecode_update (snd (run_mtc s fs)) of
        Some t \<Rightarrow> Some t | None \<Rightarrow> lastFullTimecode s)"
proof (induction fs arbitrary: s)
  case Nil
  then show ?case by simp
next
  case (Cons f fs)
  obtain t v where f: "f = (t, v)" by (cases f)
  let ?s1 = "fst (parseEasyMIDIMTC s t v)"
  let ?new = "newTimecode (array_set (quarterFrameData s) t v)"
  show ?case
  proof (cases "t = 7 \<and> timecode_changed (lastFullTimecode s) ?new")
    case True
    then have "snd (parseEasyMIDIMTC s t v) = [IoEmit (TimecodeUpdate ?new)]"
      and "lastFullTimecode ?s1 = Some ?new"
      by (auto simp: parse_effects parse_lastFull)
    then show ?thesis
      unfolding f run_mtc_Cons Cons.IH last_timecode_update_append
      by (simp split: option.splits)
  next
    case False
    then have "snd (parseEasyMIDIMTC s t v) = []"
      and "lastFullTimecode ?s1 = lastFullTimecode s"
      by (auto simp: parse_effects parse_lastFull)
    then show ?thesis
      unfolding f run_mtc_Cons Cons.IH last_timecode_update_append
      by (simp split: option.splits)
  qed
qed

text \<open>Second pass of a cycle\<close>

lemma array_set_same: "t < length q \<Longrightarrow> q ! t = v \<Longrightarrow> array_set q t v = q"
  by (auto simp: array_set_def)

lemma run_mtc_stable:
  assumes "\<forall>(t, v) \<in> set c. t < length (quarterFrameData s) \<and> quarterFrameData s ! t = v"
    and "\<not> timecode_changed (lastFullTimecode s) (newTimecode (quarterFrameData s))"
  shows "snd (run_mtc s c) = []"
  using assms
proof (induction c arbitrary: s)
  case Nil
  then show ?case by simp
next
  case (Cons f c)
  obtain t v where f: "f = (t, v)" by (cases f)
  have same: "array_set (quarterFrameData s) t v = quarterFrameData s"
    using Cons.prems(1) f by (simp add: array_set_same)
  have e: "snd (parseEasyMIDIMTC s t v) = []"
    using Cons.prems(2) by (simp add: parse_effects same)
  have l: "lastFullTimecode (fst (parseEasyMIDIMTC s t v)) = lastFullTimecode s"
    using Cons.prems(2) by (simp add: parse_lastFull same)
  have q: "quarterFrameData (fst (parseEasyMIDIMTC s t v)) = quarterFrameData s"
    by (simp add: same)
  have "snd (run_mtc (fst (parseEasyMIDIMTC s t v)) c) = []"
    using Cons.prems by (intro Cons.IH) (simp_all add: l same)
  then show ?case by (simp only: f run_mtc_Cons e) simp
qed

lemma array_set_length: "length q \<le> length (array_set q t v)"
  by (simp add: array_set_def)

lemma array_set_other: "k < length q \<Longrightarrow> k \<noteq> t \<Longrightarrow> array_set q t v ! k = q ! k"
  by (simp add: array_set_def nth_append)

lemma array_set_written: "t < length (array_set q t v) \<and> array_set q t v ! t = v"
  by (simp add: array_set_def nth_append)

lemma run_mtc_keeps_slot:
  assumes "k \<notin> fst ` set c" "k < length (quarterFrameData s)"
  shows "k < length (quarterFrameData (fst (run_mtc s c))) \<and>
         quarterFrameData (fst (run_mtc s c)) ! k = quarterFrameData s ! k"
  using assms
proof (induction c arbitrary: s)
  case Nil
  then show ?case by simp
next
  case (Cons f c)
  obtain t v where f: "f = (t, v)" by (cases f)
  let ?s1 = "fst (parseEasyMIDIMTC s t v)"
  have kt: "k \<noteq> t" using Cons.prems(1) f by auto
  have len: "k < length (quarterFrameData ?s1)"
    using Cons.prems(2) array_set_length[of "quarterFrameData s" t v] by simp
  have val: "quarterFrameData ?s1 ! k = quarterFrameData s ! k"
    using Cons.prems(2) kt by (simp add: array_set_other)
  have "k \<notin> fst ` set c" using Cons.prems(1) by auto
  from Cons.IH[OF this len] show ?case by (simp only: f run_mtc_Cons val) 
qed

lemma run_mtc_last_write:
  assumes "distinct (map fst c)"
  shows "\<forall>(t, v) \<in> set c. t < length (quarterFrameData (fst (run_mtc s c))) \<and>
           quarterFrameData (fst (run_mtc s c)) ! t = v"
  using assms
proof (induction c arbitrary: s)
  case Nil
  then show ?case by simp
next
  case (Cons f c)
  obtain t v where f: "f = (t, v)" by (cases f)
  let ?s1 = "fst (parseEasyMIDIMTC s t v)"
  have d: "distinct (map fst c)" and t: "t \<notin> fst ` set c"
    using Cons.prems f by auto
  have w: "t < length (quarterFrameData ?s1) \<and> quarterFrameData ?s1 ! t = v"
    using array_set_written[of t "quarterFrameData s" v] by simp
  have hd: "t < length (quarterFrameData (fst (run_mtc ?s1 c))) \<and>
         quarterFrameData (fst (run_mtc ?s1 c)) ! t = v"
    using run_mtc_keeps_slot[OF t, of ?s1] w by simp
  show ?case using Cons.IH[OF d, of ?s1] hd by (simp only: f run_mtc_Cons) auto
qed

lemma run_mtc_append:
  "fst (run_mtc s (xs @ ys)) = fst (run_mtc (fst (run_mtc s xs)) ys)"
proof (induction xs arbitrary: s)
  case Nil
  then show ?case by simp
next
  case (Cons f xs)
  obtain t v where f: "f = (t, v)" by (cases f)
  show ?case using Cons.IH by (simp only: f append_Cons run_mtc_Cons)
qed

lemma parse7_settled:
  "\<not> timecode_changed (lastFullTimecode (fst (parseEasyMIDIMTC s 7 v)))
       (newTimecode (quarterFrameData (fst (parseEasyMIDIMTC s 7 v))))"
  by (auto simp: parseEasyMIDIMTC_def parseCompleteMTC_def Let_def timecode_changed_def split: option.splits)

lemma run_mtc_cycle_settled:
  assumes "c \<noteq> []" "fst (last c) = 7"
  shows "\<not> timecode_changed (lastFullTimecode (fst (run_mtc s c)))
       (newTimecode (quarterFrameData (fst (run_mtc s c))))"
proof -
  obtain c' v where c: "c = c' @ [(7, v)]"
    using assms by (cases c rule: rev_cases) (auto simp: prod_eq_iff)
  have "fst (run_mtc s c) = fst (parseEasyMIDIMTC (fst (run_mtc s c')) 7 v)"
    unfolding c run_mtc_append by (simp add: split_beta)
  then show ?thesis using parse7_settled[of "fst (run_mtc s c')" v] by simp
qed

lemma cycle_twice_silent:
  assumes "c \<noteq> []" "distinct (map fst c)" "fst (last c) = 7"
  shows "snd (run_mtc (fst (run_mtc s c)) c) = []"
  by (rule run_mtc_stable) (use run_mtc_last_write[OF assms(2)] run_mtc_cycle_settled[OF assms(1,3)] in simp_all)

section \<open>C1: the recombination of the nibbles\<close>


lemma parse7_buffer:
  assumes "nibble_buffer (quarterFrameData s)"
  shows "quarterFrameData (fst (parseEasyMIDIMTC s 7 v)) = (quarterFrameData s)[7 := v]"
  using assms by (simp add: array_set_def nibble_buffer_def)

lemma initial_canonical: "canonical_inv (initial_state tgs port osc)"
  by (simp add: canonical_inv_def initial_state_def)

lemma canonical_fields:
  assumes "\<not> timecode_changed (Some a) b"
  shows "tc_frames a = tc_frames b" "tc_seconds a = tc_seconds b"
    "tc_minutes a = tc_minutes b" "tc_hours a = tc_hours b"
  using assms by (simp_all add: timecode_changed_def)

text \<open>
  Claim C1. Start from the initial state and write nibbles (values 0-15) into the buffer
  by any stream of fragments. When a fragment of type 7 with a nibble is then processed,
  the timecode that \<open>parseCompleteMTC\<close> computes from the buffer \<open>q\<close> has
  frames = \<open>q[1]<<4 | q[0]\<close>, seconds = \<open>q[3]<<4 | q[2]\<close>, minutes = \<open>q[5]<<4 | q[4]\<close>,
  hours = \<open>(q[7]<<4 | q[6]) & 0x1F\<close>, and the frame rate of the table at the code
  \<open>((q[7]<<4 | q[6]) >> 5) & 0x03\<close> (24, 25, 29.97, 30, else 30), with the operators
  read on unbounded integers: nothing wraps at 32 bits. The notification, when there is
  one, carries that timecode, and the canonical timecode agrees with it on hours, minutes,
  seconds and frames. The cycle (0,5),(1,2),(2,10),(3,0),(4,5),(5,0),(6,8),(7,0) from the
  initial state emits one notification, with frames 37, seconds 10, minutes 5, hours 8 and
  frame rate 24.
\<close>

theorem mtc_decode_nibbles:
  "(list_all (\<lambda>(t, v). 0 \<le> v \<and> v < 16) fs \<and> 0 \<le> v \<and> v < 16 \<longrightarrow>
     (let s = fst (run_mtc (initial_state tgs port osc) fs);
          r = parseEasyMIDIMTC s 7 v;
          q = quarterFrameData (fst r);
          tc = newTimecode q;
          combined = push_bit 4 (q ! 7) OR (q ! 6);
          code = drop_bit 5 combined AND 0x03
      in q = (quarterFrameData s)[7 := v] \<and>
         (snd r = [] \<or> snd r = [IoEmit (TimecodeUpdate tc)]) \<and>
         tc_frames tc = push_bit 4 (q ! 1) OR (q ! 0) \<and>
         tc_seconds tc = push_bit 4 (q ! 3) OR (q ! 2) \<and>
         tc_minutes tc = push_bit 4 (q ! 5) OR (q ! 4) \<and>
         tc_hours tc = combined AND 0x1F \<and>
         tc_frameRate tc =
           (if code = 0 then 24 else if code = 1 then 25 else if code = 2 then 29.97 else 30) \<and>
         tc_frames (timecode (fst r)) = tc_frames tc \<and>
         tc_seconds (timecode (fst r)) = tc_seconds tc \<and>
         tc_minutes (timecode (fst r)) = tc_minutes tc \<and>
         tc_hours (timecode (fst r)) = tc_hours tc)) \<and>
   snd (run_mtc (initial_state tgs port osc)
     [(0, 5), (1, 2), (2, 10), (3, 0), (4, 5), (5, 0), (6, 8), (7, 0)]) =
     [IoEmit (TimecodeUpdate \<lparr>tc_hours = 8, tc_minutes = 5, tc_seconds = 10, tc_frames = 37,
        tc_frameRate = 24, tc_source = ''midi''\<rparr>)]"
proof (intro conjI impI)
  assume h: "list_all (\<lambda>(t, v). 0 \<le> v \<and> v < 16) fs \<and> 0 \<le> v \<and> v < 16"
  define s where "s = fst (run_mtc (initial_state tgs port osc) fs)"
  define r where "r = parseEasyMIDIMTC s 7 v"
  define q where "q = quarterFrameData (fst r)"
  have "\<forall>(t, v) \<in> set fs. 0 \<le> v \<and> v < 16"
    using h by (simp add: list_all_iff)
  then have ns: "nibble_buffer (quarterFrameData s)"
    unfolding s_def by (intro run_mtc_nibble initial_nibble)
  have nq: "nibble_buffer q"
    unfolding q_def r_def using ns h by (simp add: array_set_nibble)
  have cs: "canonical_inv s"
    unfolding s_def by (intro run_mtc_canonical_inv initial_canonical)
  have c: "\<not> timecode_changed (Some (timecode (fst r))) (newTimecode q)"
    unfolding q_def r_def by (rule parse7_canonical [OF cs])
  have e: "snd r = [] \<or> snd r = [IoEmit (TimecodeUpdate (newTimecode q))]"
    unfolding q_def r_def by (simp add: parse_effects)
  have b: "q = (quarterFrameData s)[7 := v]"
    unfolding q_def r_def by (rule parse7_buffer [OF ns])
  show "let s = fst (run_mtc (initial_state tgs port osc) fs);
          r = parseEasyMIDIMTC s 7 v;
          q = quarterFrameData (fst r);
          tc = newTimecode q;
          combined = push_bit 4 (q ! 7) OR (q ! 6);
          code = drop_bit 5 combined AND 0x03
      in q = (quarterFrameData s)[7 := v] \<and>
         (snd r = [] \<or> snd r = [IoEmit (TimecodeUpdate tc)]) \<and>
         tc_frames tc = push_bit 4 (q ! 1) OR (q ! 0) \<and>
         tc_seconds tc = push_bit 4 (q ! 3) OR (q ! 2) \<and>
         tc_minutes tc = push_bit 4 (q ! 5) OR (q ! 4) \<and>
         tc_hours tc = combined AND 0x1F \<and>
         tc_frameRate tc =
           (if code = 0 then 24 else if code = 1 then 25 else if code = 2 then 29.97 else 30) \<and>
         tc_frames (timecode (fst r)) = tc_frames tc \<and>
         tc_seconds (timecode (fst r)) = tc_seconds tc \<and>
         tc_minutes (timecode (fst r)) = tc_minutes tc \<and>
         tc_hours (timecode (fst r)) = tc_hours tc"
    unfolding Let_def s_def [symmetric] r_def [symmetric] q_def [symmetric]
    using b e newTimecode_nibbles [OF nq] canonical_fields [OF c]
    by (simp only: Let_def simp_thms)
next
  show "snd (run_mtc (initial_state tgs port osc)
     [(0, 5), (1, 2), (2, 10), (3, 0), (4, 5), (5, 0), (6, 8), (7, 0)]) =
     [IoEmit (TimecodeUpdate \<lparr>tc_hours = 8, tc_minutes = 5, tc_seconds = 10, tc_frames = 37,
        tc_frameRate = 24, tc_source = ''midi''\<rparr>)]"
    by code_simp
qed

text \<open>
  The theorem at the first seven fragments of that cycle, followed by the fragment (7,0).
\<close>

theorem mtc_decode_nibbles_witness:
  "list_all (\<lambda>(t, v). 0 \<le> v \<and> v < 16)
     [(0 :: nat, 5), (1, 2), (2, 10), (3, 0), (4, 5), (5, 0), (6, 8 :: int)] \<and>
   tc_frames (newTimecode (quarterFrameData (fst (parseEasyMIDIMTC
     (fst (run_mtc (initial_state default_tags None True)
        [(0, 5), (1, 2), (2, 10), (3, 0), (4, 5), (5, 0), (6, 8)])) 7 0)))) = 37 \<and>
   tc_seconds (timecode (fst (parseEasyMIDIMTC
     (fst (run_mtc (initial_state default_tags None True)
        [(0, 5), (1, 2), (2, 10), (3, 0), (4, 5), (5, 0), (6, 8)])) 7 0))) = 10"
proof -
  define S where "S = fst (parseEasyMIDIMTC
     (fst (run_mtc (initial_state default_tags None True)
        [(0, 5), (1, 2), (2, 10), (3, 0), (4, 5), (5, 0), (6, 8)])) 7 0)"
  have q: "quarterFrameData S = [5, 2, 10, 0, 5, 0, 8, 0]"
    unfolding S_def by code_simp
  have h: "list_all (\<lambda>(t, v). 0 \<le> v \<and> v < 16)
     [(0::nat, 5), (1, 2), (2, 10), (3, 0), (4, 5), (5, 0), (6, 8 :: int)]"
    by simp
  have "(0::int) \<le> 0 \<and> (0::int) < 16" by simp
  with h mtc_decode_nibbles [of "[(0, 5), (1, 2), (2, 10), (3, 0), (4, 5), (5, 0), (6, 8)]" 0
        default_tags None True]
  have "tc_frames (newTimecode (quarterFrameData S)) =
          push_bit 4 (quarterFrameData S ! 1) OR (quarterFrameData S ! 0)"
    and "tc_seconds (newTimecode (quarterFrameData S)) =
          push_bit 4 (quarterFrameData S ! 3) OR (quarterFrameData S ! 2)"
    and "tc_seconds (timecode S) = tc_seconds (newTimecode (quarterFrameData S))"
    unfolding S_def Let_def by blast+
  then have "tc_frames (newTimecode (quarterFrameData S)) = 37"
    and "tc_seconds (timecode S) = 10"
    by (simp_all add: q)
  then show ?thesis
    unfolding S_def using h by blast
qed

section \<open>C2: a notification exactly on a change at type 7\<close>


text \<open>
  Claim C2, as amended. Processing one fragment \<open>(t, v)\<close> in any state emits a
  \<open>timecode-update\<close>, and replaces the canonical timecode and the last full timecode,
  exactly when \<open>t = 7\<close> and either no full timecode was emitted yet or the recombined value
  differs from the last one in hours, minutes, seconds or frames; otherwise nothing is
  emitted and both stay. From the initial state, the last full timecode is the timecode of
  the last notification emitted. Processing a second time, right after the first and with
  the same values, a stream of fragments of distinct types that ends with type 7 emits
  nothing. The amendment is the condition that the fragment of type 7 comes last.
\<close>

theorem mtc_emit_iff_changed:
  "(let new = newTimecode (array_set (quarterFrameData s) t v);
        differs = (case lastFullTimecode s of
                     None \<Rightarrow> True
                   | Some l \<Rightarrow> tc_hours l \<noteq> tc_hours new \<or> tc_minutes l \<noteq> tc_minutes new \<or>
                              tc_seconds l \<noteq> tc_seconds new \<or> tc_frames l \<noteq> tc_frames new);
        r = parseEasyMIDIMTC s t v
    in if t = 7 \<and> differs
       then snd r = [IoEmit (TimecodeUpdate new)] \<and> timecode (fst r) = new \<and>
            lastFullTimecode (fst r) = Some new
       else snd r = [] \<and> timecode (fst r) = timecode s \<and>
            lastFullTimecode (fst r) = lastFullTimecode s) \<and>
   lastFullTimecode (fst (run_mtc (initial_state tgs port osc) fs)) =
     last_timecode_update (snd (run_mtc (initial_state tgs port osc) fs)) \<and>
   (c \<noteq> [] \<and> distinct (map fst c) \<and> fst (last c) = 7 \<longrightarrow>
      snd (run_mtc (fst (run_mtc s0 c)) c) = [])"
proof (intro conjI impI)
  show "let new = newTimecode (array_set (quarterFrameData s) t v);
        differs = (case lastFullTimecode s of
                     None \<Rightarrow> True
                   | Some l \<Rightarrow> tc_hours l \<noteq> tc_hours new \<or> tc_minutes l \<noteq> tc_minutes new \<or>
                              tc_seconds l \<noteq> tc_seconds new \<or> tc_frames l \<noteq> tc_frames new);
        r = parseEasyMIDIMTC s t v
    in if t = 7 \<and> differs
       then snd r = [IoEmit (TimecodeUpdate new)] \<and> timecode (fst r) = new \<and>
            lastFullTimecode (fst r) = Some new
       else snd r = [] \<and> timecode (fst r) = timecode s \<and>
            lastFullTimecode (fst r) = lastFullTimecode s"
    unfolding Let_def timecode_changed_def [symmetric]
    by (auto simp: parse_effects parse_timecode parse_lastFull)
next
  have "lastFullTimecode (initial_state tgs port osc) = None"
    by (simp add: initial_state_def)
  then show "lastFullTimecode (fst (run_mtc (initial_state tgs port osc) fs)) =
     last_timecode_update (snd (run_mtc (initial_state tgs port osc) fs))"
    by (simp add: run_mtc_lastFull split: option.splits)
next
  assume "c \<noteq> [] \<and> distinct (map fst c) \<and> fst (last c) = 7"
  then show "snd (run_mtc (fst (run_mtc s0 c)) c) = []"
    by (simp add: cycle_twice_silent)
qed

text \<open>The theorem at the cycle of C1, processed twice from the initial state.\<close>

theorem mtc_emit_iff_changed_witness:
  "distinct (map fst [(0 :: nat, 5 :: int), (1, 2), (2, 10), (3, 0), (4, 5), (5, 0), (6, 8), (7, 0)]) \<and>
   snd (run_mtc (initial_state default_tags None True)
     [(0, 5), (1, 2), (2, 10), (3, 0), (4, 5), (5, 0), (6, 8), (7, 0)]) =
     [IoEmit (TimecodeUpdate \<lparr>tc_hours = 8, tc_minutes = 5, tc_seconds = 10, tc_frames = 37,
        tc_frameRate = 24, tc_source = ''midi''\<rparr>)] \<and>
   snd (run_mtc (fst (run_mtc (initial_state default_tags None True)
     [(0, 5), (1, 2), (2, 10), (3, 0), (4, 5), (5, 0), (6, 8), (7, 0)]))
     [(0, 5), (1, 2), (2, 10), (3, 0), (4, 5), (5, 0), (6, 8), (7, 0)]) = []"
proof -
  define c where "c = [(0 :: nat, 5 :: int), (1, 2), (2, 10), (3, 0), (4, 5), (5, 0), (6, 8), (7, 0)]"
  have h: "c \<noteq> [] \<and> distinct (map fst c) \<and> fst (last c) = 7"
    unfolding c_def by simp
  have e: "snd (run_mtc (initial_state default_tags None True) c) =
     [IoEmit (TimecodeUpdate \<lparr>tc_hours = 8, tc_minutes = 5, tc_seconds = 10, tc_frames = 37,
        tc_frameRate = 24, tc_source = ''midi''\<rparr>)]"
    unfolding c_def by code_simp
  from h mtc_emit_iff_changed [of _ _ _ _ _ _ _ c "initial_state default_tags None True"]
  have "snd (run_mtc (fst (run_mtc (initial_state default_tags None True) c)) c) = []"
    by blast
  with h e show ?thesis
    unfolding c_def by blast
qed

text \<open>
  Claim C2 as the specification words it, without the condition on the place of type 7,
  does not hold. The stream below has the eight types once each, with type 7 in the fifth
  place. From the initial state its fragment of type 7 is recombined with the zeros that
  the buffer still holds in the places 4 to 6 and 00:00:10:37 is notified; the three
  fragments after it fill those places. Processed again with the same values, the
  fragment of type 7 is recombined with them and a second notification, 08:05:10:37, is
  emitted.
\<close>

theorem replay_of_eight_fragments_emits:
  "length [(0 :: nat, 5 :: int), (1, 2), (2, 10), (3, 0), (7, 0), (4, 5), (5, 0), (6, 8)] = 8 \<and>
   distinct (map fst [(0 :: nat, 5 :: int), (1, 2), (2, 10), (3, 0), (7, 0), (4, 5), (5, 0), (6, 8)]) \<and>
   list_all (\<lambda>t. t < 8)
     (map fst [(0 :: nat, 5 :: int), (1, 2), (2, 10), (3, 0), (7, 0), (4, 5), (5, 0), (6, 8)]) \<and>
   snd (run_mtc (initial_state default_tags None True)
     [(0, 5), (1, 2), (2, 10), (3, 0), (7, 0), (4, 5), (5, 0), (6, 8)]) =
     [IoEmit (TimecodeUpdate \<lparr>tc_hours = 0, tc_minutes = 0, tc_seconds = 10, tc_frames = 37,
        tc_frameRate = 24, tc_source = ''midi''\<rparr>)] \<and>
   snd (run_mtc (fst (run_mtc (initial_state default_tags None True)
     [(0, 5), (1, 2), (2, 10), (3, 0), (7, 0), (4, 5), (5, 0), (6, 8)]))
     [(0, 5), (1, 2), (2, 10), (3, 0), (7, 0), (4, 5), (5, 0), (6, 8)]) =
     [IoEmit (TimecodeUpdate \<lparr>tc_hours = 8, tc_minutes = 5, tc_seconds = 10, tc_frames = 37,
        tc_frameRate = 24, tc_source = ''midi''\<rparr>)]"
  by code_simp

section \<open>Sessions: lemmas\<close>

lemma as_participant_overlay:
  "map_of (users s) k = Some user \<Longrightarrow> u_isOverlay user \<Longrightarrow> as_participant s k h = (s, [])"
  by (simp add: as_participant_def)

lemma as_participant_participant:
  "map_of (users s) k = Some user \<Longrightarrow> \<not> u_isOverlay user \<Longrightarrow> as_participant s k h = h user"
  by (simp add: as_participant_def)

lemma userIP_of_examples:
  "userIP_of ''::ffff:10.0.0.7'' = ''10.0.0.7''"
  "userIP_of ''::ffff:10.0.0.9'' = ''10.0.0.9''"
  by (simp_all add: userIP_of_def)

lemma overlay_scene_users:
  "users overlay_scene =
     [(''p'', \<lparr>u_id = ''p'', u_name = ''10.0.0.7'', u_isTyping = False, u_currentTimecode = None,
        u_currentLxCue = None, u_joinedAt = ''t0'', u_isOverlay = False, u_isAnonymous = True\<rparr>),
      (''ov'', \<lparr>u_id = ''ov'', u_name = ''Overlay-10.0.0.9'', u_isTyping = False,
        u_currentTimecode = None, u_currentLxCue = None, u_joinedAt = ''t2'',
        u_isOverlay = True, u_isAnonymous = False\<rparr>)]"
  by (simp add: overlay_scene_def initial_state_def connection_def client_def handle_def
      note_submit_def as_participant_def userIP_of_examples Let_def)

lemma overlay_scene_tags: "tags overlay_scene = default_tags"
  by (simp add: overlay_scene_def initial_state_def connection_def client_def handle_def
      note_submit_def as_participant_def userIP_of_examples Let_def)

lemma overlay_scene_tagsVar: "tagsVar overlay_scene = default_tags" "tagsShared overlay_scene"
  by (simp_all add: overlay_scene_def initial_state_def connection_def client_def handle_def
      note_submit_def as_participant_def userIP_of_examples Let_def)

lemma overlay_scene_notes:
  "map (\<lambda>n. (n_id n, n_user n, n_tags n)) (notes overlay_scene) = [(''n1'', ''10.0.0.7'', [])]"
  by (simp add: overlay_scene_def initial_state_def connection_def client_def handle_def
      note_submit_def as_participant_def userIP_of_examples Let_def str_or_def num_or_def)

lemma run_clients_Cons:
  "fst (run_clients s ((k, ev) # es)) = fst (run_clients (fst (client s k ev)) es)"
  "snd (run_clients s ((k, ev) # es)) =
     snd (client s k ev) @ snd (run_clients (fst (client s k ev)) es)"
  by (simp_all add: Let_def)

lemma isNameTaken_wf:
  assumes "wf_users s" "map_of (users s) k = Some user"
  shows "isNameTaken s user newName = name_held_by_other s k newName"
proof -
  have ids: "\<And>x. x \<in> set (users s) \<Longrightarrow> u_id (snd x) = fst x"
    using assms(1) by (simp add: wf_users_def list_all_iff)
  have "(k, user) \<in> set (users s)" using assms(2) by (rule map_of_SomeD)
  then have "u_id user = k" using ids by fastforce
  then show ?thesis
    using ids by (auto simp: isNameTaken_def name_held_by_other_def list_ex_iff)
qed

lemma rename_note_fields:
  "n_user (rename_note uid newName n) = (if n_userId n = uid then newName else n_user n)"
  "n_id (rename_note uid newName n) = n_id n"
  "n_userId (rename_note uid newName n) = n_userId n"
  "n_text (rename_note uid newName n) = n_text n"
  "n_tags (rename_note uid newName n) = n_tags n"
  "n_comments (rename_note uid newName n) = map (rename_comment uid newName) (n_comments n)"
  by (simp_all add: rename_note_def)

lemma rename_comment_fields:
  "c_user (rename_comment uid newName c) = (if c_userId c = uid then newName else c_user c)"
  "c_id (rename_comment uid newName c) = c_id c"
  "c_userId (rename_comment uid newName c) = c_userId c"
  "c_text (rename_comment uid newName c) = c_text c"
  by (simp_all add: rename_comment_def)

lemma user_name_change_taken:
  assumes "map_of (users s) k = Some user" "\<not> u_isOverlay user" "isNameTaken s user newName"
  shows "client s k (User_Name_Change newName) =
     (s, [SocketEmit k (NameChangeError (''Name '' @ [CHR 0x22] @ newName @ [CHR 0x22] @
                    '' is already taken. Please choose a different name.''))])"
  using assms by (simp add: client_def handle_def user_name_change_def as_participant_def)

lemma user_name_change_free:
  assumes "map_of (users s) k = Some user" "\<not> u_isOverlay user" "\<not> isNameTaken s user newName"
  shows "client s k (User_Name_Change newName) =
     (let s1 = s\<lparr>users := AList.update k (user\<lparr>u_name := newName, u_isAnonymous := False\<rparr>) (users s),
                 anonymousUsers := AList.delete k (anonymousUsers s),
                 notes := map (rename_note (u_id user) newName) (notes s)\<rparr>
      in (s1, [IoEmit (UsersUpdate (filteredUsers s1)), IoEmit (NotesUpdate (notes s1)),
               SocketEmit k (NameChangeSuccess
                        (''Name changed from '' @ [CHR 0x22] @ u_name user @ [CHR 0x22] @
                         '' to '' @ [CHR 0x22] @ newName @ [CHR 0x22]))]))"
  using assms by (simp add: client_def handle_def user_name_change_def as_participant_def Let_def)

lemma plain_handle:
  assumes "map_of (users s) k = Some u" "plain_event ev"
  shows "(users (fst (handle s k ev)) = users s \<or>
          (\<exists>u'. users (fst (handle s k ev)) = AList.update k u' (users s) \<and>
                u_id u' = u_id u \<and> u_isOverlay u' = u_isOverlay u \<and>
                u_isAnonymous u' = u_isAnonymous u)) \<and>
         list_all quiet_effect (snd (handle s k ev))"
  using assms
  by (cases ev)
    (auto simp: plain_event_def quiet_effect_def handle_def as_participant_def Let_def
      note_update_tags_def create_tag_def delete_tag_def saveTagsToFile_def typing_start_def typing_stop_def
      time_mode_change_def lx_cue_change_def note_submit_def comment_submit_def
      chat_message_def note_edit_text_def comment_edit_def comment_delete_def
      export_request_def split: option.splits)

lemma wf_users_cong: "wf_users s \<Longrightarrow> users s' = users s \<Longrightarrow> wf_users s'"
  by (simp add: wf_users_def)

lemma update_set_subset: "set (AList.update k u al) \<subseteq> insert (k, u) (set al)"
  by (induction al) auto

lemma delete_set_subset: "set (AList.delete k al) \<subseteq> set al"
  by (induction al) auto

lemma wf_users_update:
  assumes "wf_users s" "users s' = AList.update k u (users s)" "u_id u = k"
  shows "wf_users s'"
  using assms update_set_subset [of k u "users s"]
  by (auto simp: wf_users_def list_all_iff distinct_update)

lemma wf_users_delete:
  assumes "wf_users s" "users s' = AList.delete k (users s)"
  shows "wf_users s'"
  using assms delete_set_subset [of k "users s"]
  by (auto simp: wf_users_def list_all_iff distinct_delete)

lemma wf_users_key:
  assumes "wf_users s" "map_of (users s) k = Some u"
  shows "u_id u = k"
proof -
  have "(k, u) \<in> set (users s)" using assms(2) by (rule map_of_SomeD)
  moreover have "\<forall>x \<in> set (users s). u_id (snd x) = fst x"
    using assms(1) by (simp add: wf_users_def list_all_iff)
  ultimately show ?thesis by (metis fst_conv snd_conv)
qed

lemma users_disconnect:
  "users (fst (disconnect s k)) = (if map_of (users s) k = None then users s else AList.delete k (users s))"
  by (simp add: disconnect_def Let_def split: option.splits)

lemma wf_users_disconnect:
  assumes "wf_users s"
  shows "wf_users (fst (disconnect s k))"
proof (cases "map_of (users s) k = None")
  case True
  then have "users (fst (disconnect s k)) = users s" by (simp add: users_disconnect)
  then show ?thesis by (rule wf_users_cong [OF assms])
next
  case False
  then have "users (fst (disconnect s k)) = AList.delete k (users s)"
    by (auto simp: users_disconnect)
  then show ?thesis by (rule wf_users_delete [OF assms])
qed

lemma wf_users_client:
  assumes "wf_users s"
  shows "wf_users (fst (client s k ev))"
proof (cases "map_of (users s) k")
  case None
  then show ?thesis using assms by (simp add: client_def)
next
  case (Some u)
  have id: "u_id u = k" by (rule wf_users_key [OF assms Some])
  have c: "\<And>e. client s k e = handle s k e" using Some by (simp add: client_def)
  show ?thesis
  proof (cases "plain_event ev")
    case True
    from plain_handle [OF Some True]
    consider "users (fst (handle s k ev)) = users s"
      | u' where "users (fst (handle s k ev)) = AList.update k u' (users s)" "u_id u' = u_id u"
      by blast
    then have "wf_users (fst (handle s k ev))"
    proof cases
      case 1
      then show "wf_users (fst (handle s k ev))" by (rule wf_users_cong [OF assms])
    next
      case 2
      show "wf_users (fst (handle s k ev))"
        by (rule wf_users_update [OF assms 2(1)]) (simp add: 2(2) id)
    qed
    then show ?thesis by (simp add: c)
  next
    case False
    then consider (rename) n where "ev = User_Name_Change n" | (leave) "ev = Disconnect"
      by (cases ev) (simp_all add: plain_event_def)
    then show ?thesis
    proof cases
      case rename
      have "users (fst (handle s k (User_Name_Change n))) = users s \<or>
            users (fst (handle s k (User_Name_Change n))) =
              AList.update k (u\<lparr>u_name := n, u_isAnonymous := False\<rparr>) (users s)"
        using Some
        by (simp add: handle_def user_name_change_def as_participant_def Let_def)
      then have "wf_users (fst (handle s k (User_Name_Change n)))"
      proof (elim disjE)
        assume "users (fst (handle s k (User_Name_Change n))) = users s"
        then show "wf_users (fst (handle s k (User_Name_Change n)))"
          by (rule wf_users_cong [OF assms])
      next
        assume "users (fst (handle s k (User_Name_Change n))) =
              AList.update k (u\<lparr>u_name := n, u_isAnonymous := False\<rparr>) (users s)"
        then show "wf_users (fst (handle s k (User_Name_Change n)))"
          by (rule wf_users_update [OF assms]) (simp add: id)
      qed
      then show ?thesis by (simp add: c rename)
    next
      case leave
      show ?thesis
        using assms by (simp add: c leave handle_def wf_users_disconnect)
    qed
  qed
qed

lemma users_connection:
  "users (fst (connection s k ip ov now pc)) =
     AList.update k \<lparr>u_id = k, u_name = (if ov then ''Overlay-'' @ userIP_of ip else userIP_of ip),
                  u_isTyping = False, u_currentTimecode = None, u_currentLxCue = None,
                  u_joinedAt = now, u_isOverlay = ov, u_isAnonymous = \<not> ov\<rparr> (users s)"
  by (simp add: connection_def Let_def)

lemma wf_users_step:
  assumes "wf_users s"
  shows "wf_users (fst (step s i))"
proof (cases i)
  case (Midi t v)
  then show ?thesis using assms
    by (simp add: step_def parseEasyMIDIMTC_def parseCompleteMTC_def Let_def wf_users_def)
next
  case (Osc a v)
  then show ?thesis using assms
    by (simp add: step_def osc_message_def Let_def wf_users_def split: option.splits)
next
  case (Connection k ip ov now pc)
  show ?thesis
    unfolding Connection step_def input.case
    by (rule wf_users_update [OF assms users_connection]) simp
next
  case (Client k ev)
  then show ?thesis using assms by (simp add: step_def wf_users_client)
qed

lemma wf_users_initial: "wf_users (initial_state tgs port osc)"
  by (simp add: wf_users_def initial_state_def)

lemma userIP_of_example3: "userIP_of ''::ffff:10.0.0.8'' = ''10.0.0.8''"
  by (simp add: userIP_of_def)

lemmas scene_defs = initial_state_def connection_def client_def handle_def
  note_submit_def comment_submit_def user_name_change_def as_participant_def isNameTaken_def
  has_note_def toLowerCase_def char_lower_def str_or_def num_or_def
  userIP_of_examples userIP_of_example3 Let_def

lemma rename_scene_users:
  "users rename_scene =
     [(''p'', \<lparr>u_id = ''p'', u_name = ''10.0.0.7'', u_isTyping = False, u_currentTimecode = None,
        u_currentLxCue = None, u_joinedAt = ''t0'', u_isOverlay = False, u_isAnonymous = True\<rparr>),
      (''q'', \<lparr>u_id = ''q'', u_name = ''Alice'', u_isTyping = False, u_currentTimecode = None,
        u_currentLxCue = None, u_joinedAt = ''t1'', u_isOverlay = False, u_isAnonymous = False\<rparr>)]"
  by (simp add: rename_scene_def scene_defs)

lemma rename_scene_notes:
  "map (\<lambda>n. (n_id n, n_userId n, n_user n, map (\<lambda>c. (c_id c, c_userId c, c_user c)) (n_comments n)))
     (notes rename_scene) =
   [(''n1'', ''p'', ''10.0.0.7'', [(''c1'', ''q'', ''Alice''), (''c2'', ''p'', ''10.0.0.7'')])]"
  by (simp add: rename_scene_def scene_defs)

lemma toLowerCase_examples:
  "toLowerCase ''ALICE'' = ''alice''" "toLowerCase ''Alice'' = ''alice''"
  "toLowerCase ''Bob'' = ''bob''"
  by code_simp+

text \<open>
  Beyond ASCII: the capital letters of the Latin-1 supplement are lowered, the
  multiplication sign and the sharp s are not; the no-break space is trimmed.
\<close>

lemma toLowerCase_accent:
  "toLowerCase (CHR 0xC9 # ''MILIE'') = CHR 0xE9 # ''milie''"
  "toLowerCase (CHR 0xE9 # ''milie'') = CHR 0xE9 # ''milie''"
  "toLowerCase ''10.0.0.7'' = ''10.0.0.7''"
  "toLowerCase [CHR 0xC0, CHR 0xD7, CHR 0xDE, CHR 0xDF, CHR 0x40, CHR 0x5B] =
     [CHR 0xE0, CHR 0xD7, CHR 0xFE, CHR 0xDF, CHR 0x40, CHR 0x5B]"
  by code_simp+

lemma trim_no_break_space: "trim (CHR 0xA0 # '' 12 '' @ [CHR 0xA0]) = ''12''"
  by code_simp

lemma accent_scene_users:
  "users accent_scene =
     [(''p'', \<lparr>u_id = ''p'', u_name = ''10.0.0.7'', u_isTyping = False, u_currentTimecode = None,
        u_currentLxCue = None, u_joinedAt = ''t0'', u_isOverlay = False, u_isAnonymous = True\<rparr>),
      (''q'', \<lparr>u_id = ''q'', u_name = CHR 0xE9 # ''milie'', u_isTyping = False,
        u_currentTimecode = None, u_currentLxCue = None, u_joinedAt = ''t1'',
        u_isOverlay = False, u_isAnonymous = False\<rparr>)]"
  by (simp add: accent_scene_def client_def handle_def user_name_change_def as_participant_def
      isNameTaken_def rename_scene_users toLowerCase_accent Let_def)

text \<open>
  The timer callback keeps the well-formedness too, so it holds in every world reached from
  a world in which it holds.
\<close>

lemma wf_users_timeout:
  assumes "wf_users s"
  shows "wf_users (fst (anonymity_timeout s k))"
proof -
  have "users (fst (anonymity_timeout s k)) = users s \<or>
        users (fst (anonymity_timeout s k)) = users (fst (disconnect s k))"
    by (simp add: anonymity_timeout_def Let_def split: option.splits)
  then show ?thesis
    using wf_users_disconnect [OF assms, of k] assms by (auto intro: wf_users_cong)
qed

lemma wf_users_fire_due:
  assumes "wf_users s"
  shows "wf_users (fst (fire_due s ts t))"
  using assms
proof (induction ts arbitrary: s)
  case Nil
  then show ?case by simp
next
  case (Cons x ts)
  obtain d k where x: "x = (d, k)" by (cases x)
  show ?case
    using Cons.IH [OF Cons.prems] Cons.IH [OF wf_users_timeout [OF Cons.prems, of k]]
    by (simp add: x Let_def)
qed

lemma wf_users_run:
  assumes "wf_users (server w)"
  shows "wf_users (server (fst (run w tis)))"
  using assms
proof (induction tis arbitrary: w)
  case Nil
  then show ?case by simp
next
  case (Cons ti tis)
  have "wf_users (server (fst (deliver w ti)))"
    by (simp add: deliver_def Let_def wf_users_step wf_users_fire_due Cons.prems)
  from Cons.IH [OF this] show ?case by (simp add: Let_def)
qed

section \<open>C3: overlay sessions and the mutating events\<close>

text \<open>
  An overlay session is turned away at the entry of every guarded handler: the state
  stays and nothing is emitted.
\<close>

lemma overlay_guarded_noop:
  assumes "map_of (users s) k = Some user" "u_isOverlay user" "guarded_event ev"
  shows "client s k ev = (s, [])"
  using assms
  by (cases ev)
    (simp_all add: client_def handle_def guarded_event_def as_participant_overlay
      typing_start_def typing_stop_def time_mode_change_def lx_cue_change_def note_submit_def
      comment_submit_def chat_message_def note_edit_text_def comment_edit_def
      comment_delete_def user_name_change_def export_request_def)

text \<open>
  Claim C3 says that an overlay session is rejected for every mutating event, the tag
  events included. The handlers of \<open>delete-tag\<close>, \<open>create-tag\<close> and \<open>note-update-tags\<close>
  have no test of \<open>user.isOverlay\<close>: sent by the overlay session of \<open>overlay_scene\<close>, they
  change the tags and the tags of the note, write the tag file and broadcast, while the
  chat message of the same session is dropped. The file is written from the variable
  \<open>tags\<close>: after \<open>delete-tag\<close> it still holds the six tags, the deleted one included, and
  a \<open>create-tag\<close> that follows adds its tag to the broadcast list only.
\<close>

theorem overlay_tag_events_mutate:
  "map (\<lambda>(k, u). (k, u_isOverlay u)) (users overlay_scene) = [(''p'', False), (''ov'', True)] \<and>
   map t_id (tags overlay_scene) =
     [''safety'', ''lighting'', ''sound'', ''stage'', ''dsm'', ''set''] \<and>
   map t_id (tags (fst (client overlay_scene ''ov'' (Delete_Tag ''safety'')))) =
     [''lighting'', ''sound'', ''stage'', ''dsm'', ''set''] \<and>
   snd (client overlay_scene ''ov'' (Delete_Tag ''safety'')) =
     [SaveTagsToFile default_tags, IoEmit (TagsUpdate (tl default_tags))] \<and>
   snd (client overlay_scene ''ov'' (Create_Tag None ''Wardrobe'' None ''x1'' ''#FF6B6B'')) =
     [SaveTagsToFile (default_tags @ [\<lparr>t_id = ''x1'', t_name = ''Wardrobe'', t_color = ''#FF6B6B''\<rparr>]),
      IoEmit (TagsUpdate (default_tags @ [\<lparr>t_id = ''x1'', t_name = ''Wardrobe'', t_color = ''#FF6B6B''\<rparr>]))] \<and>
   snd (client (fst (client overlay_scene ''ov'' (Delete_Tag ''safety''))) ''ov''
          (Create_Tag None ''Wardrobe'' None ''x1'' ''#FF6B6B'')) =
     [SaveTagsToFile default_tags,
      IoEmit (TagsUpdate (tl default_tags @ [\<lparr>t_id = ''x1'', t_name = ''Wardrobe'', t_color = ''#FF6B6B''\<rparr>]))] \<and>
   map n_tags (notes overlay_scene) = [[]] \<and>
   map n_tags (notes (fst (client overlay_scene ''ov'' (Note_Update_Tags ''n1'' [''sound''])))) =
     [[''sound'']] \<and>
   snd (client overlay_scene ''ov'' (Note_Update_Tags ''n1'' [''sound''])) =
     [IoEmit (NotesUpdate (notes (fst (client overlay_scene ''ov''
        (Note_Update_Tags ''n1'' [''sound''])))))] \<and>
   client overlay_scene ''ov'' (Chat_Message ''hello'' ''m1'' ''t3'') = (overlay_scene, [])"
proof -
  obtain n where n: "notes overlay_scene = [n]" "n_id n = ''n1''" "n_tags n = []"
    using overlay_scene_notes by auto
  have c: "\<And>ev. client overlay_scene ''ov'' ev = handle overlay_scene ''ov'' ev"
    by (simp add: client_def overlay_scene_users)
  have d: "fst (client overlay_scene ''ov'' (Delete_Tag ''safety'')) =
     overlay_scene\<lparr>tags := tl default_tags, tagsShared := False\<rparr>"
    by (simp add: c handle_def delete_tag_def overlay_scene_tags default_tags_def Let_def)
  have c': "\<And>ev. client (overlay_scene\<lparr>tags := tl default_tags, tagsShared := False\<rparr>) ''ov'' ev =
     handle (overlay_scene\<lparr>tags := tl default_tags, tagsShared := False\<rparr>) ''ov'' ev"
    by (simp add: client_def overlay_scene_users)
  have 1: "map (\<lambda>(k, u). (k, u_isOverlay u)) (users overlay_scene) = [(''p'', False), (''ov'', True)]"
    by (simp add: overlay_scene_users)
  have 2: "map t_id (tags overlay_scene) =
     [''safety'', ''lighting'', ''sound'', ''stage'', ''dsm'', ''set'']"
    by (simp add: overlay_scene_tags default_tags_def)
  have 3: "map t_id (tags (fst (client overlay_scene ''ov'' (Delete_Tag ''safety'')))) =
     [''lighting'', ''sound'', ''stage'', ''dsm'', ''set'']"
    by (simp add: d default_tags_def)
  have 4: "snd (client overlay_scene ''ov'' (Delete_Tag ''safety'')) =
     [SaveTagsToFile default_tags, IoEmit (TagsUpdate (tl default_tags))]"
    by (simp add: c handle_def delete_tag_def saveTagsToFile_def overlay_scene_tags
        overlay_scene_tagsVar default_tags_def Let_def)
  have 5: "snd (client overlay_scene ''ov'' (Create_Tag None ''Wardrobe'' None ''x1'' ''#FF6B6B'')) =
     [SaveTagsToFile (default_tags @ [\<lparr>t_id = ''x1'', t_name = ''Wardrobe'', t_color = ''#FF6B6B''\<rparr>]),
      IoEmit (TagsUpdate (default_tags @ [\<lparr>t_id = ''x1'', t_name = ''Wardrobe'', t_color = ''#FF6B6B''\<rparr>]))]"
    by (simp add: c handle_def create_tag_def saveTagsToFile_def overlay_scene_tags
        overlay_scene_tagsVar default_tags_def str_or_def Let_def)
  have 6: "snd (client (fst (client overlay_scene ''ov'' (Delete_Tag ''safety''))) ''ov''
          (Create_Tag None ''Wardrobe'' None ''x1'' ''#FF6B6B'')) =
     [SaveTagsToFile default_tags,
      IoEmit (TagsUpdate (tl default_tags @ [\<lparr>t_id = ''x1'', t_name = ''Wardrobe'', t_color = ''#FF6B6B''\<rparr>]))]"
    unfolding d c'
    by (simp add: handle_def create_tag_def saveTagsToFile_def overlay_scene_tagsVar
        default_tags_def str_or_def Let_def)
  have 7: "map n_tags (notes overlay_scene) = [[]]"
    by (simp add: n)
  have 8: "map n_tags (notes (fst (client overlay_scene ''ov'' (Note_Update_Tags ''n1'' [''sound''])))) =
     [[''sound'']]"
    by (simp add: c handle_def note_update_tags_def has_note_def n Let_def)
  have 9: "snd (client overlay_scene ''ov'' (Note_Update_Tags ''n1'' [''sound''])) =
     [IoEmit (NotesUpdate (notes (fst (client overlay_scene ''ov''
        (Note_Update_Tags ''n1'' [''sound''])))))]"
    by (simp add: c handle_def note_update_tags_def has_note_def n Let_def)
  have 10: "client overlay_scene ''ov'' (Chat_Message ''hello'' ''m1'' ''t3'') = (overlay_scene, [])"
    by (simp add: c handle_def chat_message_def as_participant_def overlay_scene_users)
  show ?thesis
    using 1 2 3 4 5 6 7 8 9 10 by (intro conjI)
qed

section \<open>C4: repeated active-cue messages\<close>

text \<open>
  Claim C4 says that two consecutive active-cue messages with the same label give one
  \<open>lx-cue-update\<close>. The active-cue branch sets the cue and emits without comparing with
  the current cue: the second message is notified again. The act branch, which has the
  comparison, notifies once.
\<close>

theorem duplicate_cue_notified_twice:
  "snd (run_osc (initial_state default_tags None True)
     [(''/eos/out/active/cue/text'', Some ''1/199 B/O 1.0 2%''),
      (''/eos/out/active/cue/text'', Some ''1/199 B/O 1.0 2%'')]) =
   [IoEmit (LxCueUpdate ''199 B/O 1.0 2%''), IoEmit (LxCueUpdate ''199 B/O 1.0 2%'')] \<and>
   snd (run_osc (initial_state default_tags None True)
     [(''/bts/act'', Some ''Act 1''), (''/bts/act'', Some ''Act 1'')]) =
   [IoEmit (ActUpdate ''Act 1'')]"
  by code_simp

text \<open>In any state, a matching active-cue message sets the cue and notifies.\<close>

lemma active_cue_always_notifies:
  assumes "v \<noteq> []" "cue_match v = Some g"
  shows "osc_message s ''/eos/out/active/cue/text'' (Some v) =
           (s\<lparr>currentLxCue := trim g\<rparr>, [IoEmit (LxCueUpdate (trim g))])"
  using assms by (simp add: osc_message_def str_or_def Let_def)

section \<open>C10: the time mode\<close>

text \<open>
  Claim C10. For a session that is not an overlay, \<open>time-mode-change\<close> with a value
  other than \<open>midi\<close> and \<open>realtime\<close> leaves the state as it is and emits nothing; with one
  of the two values the time mode becomes that value, nothing else changes, and
  \<open>time-mode-update\<close> is broadcast with it.
\<close>

theorem time_mode_change_recognized:
  "map_of (users s) k = Some user \<and> \<not> u_isOverlay user \<longrightarrow>
     (if newMode = ''midi'' \<or> newMode = ''realtime''
      then client s k (Time_Mode_Change newMode) =
             (s\<lparr>timeMode := newMode\<rparr>, [IoEmit (TimeModeUpdate newMode)]) \<and>
           timeMode (fst (client s k (Time_Mode_Change newMode))) = newMode
      else client s k (Time_Mode_Change newMode) = (s, []))"
  by (simp add: client_def handle_def time_mode_change_def as_participant_def)

text \<open>The theorem at the participant of \<open>one_participant\<close>, for \<open>smpte\<close> and \<open>realtime\<close>.\<close>

theorem time_mode_change_recognized_witness:
  "map (\<lambda>(k, u). (k, u_isOverlay u)) (users one_participant) = [(''p'', False)] \<and>
   timeMode one_participant = ''midi'' \<and>
   client one_participant ''p'' (Time_Mode_Change ''smpte'') = (one_participant, []) \<and>
   timeMode (fst (client one_participant ''p'' (Time_Mode_Change ''realtime''))) = ''realtime'' \<and>
   snd (client one_participant ''p'' (Time_Mode_Change ''realtime'')) =
     [IoEmit (TimeModeUpdate ''realtime'')]"
proof -
  define p where "p = \<lparr>u_id = ''p'', u_name = ''10.0.0.7'', u_isTyping = False,
      u_currentTimecode = None, u_currentLxCue = None, u_joinedAt = ''t0'',
      u_isOverlay = False, u_isAnonymous = True\<rparr>"
  have us: "users one_participant = [(''p'', p)]"
    by (simp add: one_participant_def initial_state_def connection_def userIP_of_examples
        Let_def p_def)
  have u: "map_of (users one_participant) ''p'' = Some p \<and> \<not> u_isOverlay p"
    by (simp add: us) (simp add: p_def)
  have l: "map (\<lambda>(k, u). (k, u_isOverlay u)) (users one_participant) = [(''p'', False)]"
    by (simp add: us) (simp add: p_def)
  have m: "timeMode one_participant = ''midi''"
    by (simp add: one_participant_def initial_state_def connection_def Let_def)
  from u time_mode_change_recognized [of one_participant "''p''" p "''smpte''"]
  have a: "client one_participant ''p'' (Time_Mode_Change ''smpte'') = (one_participant, [])"
    by simp
  from u time_mode_change_recognized [of one_participant "''p''" p "''realtime''"]
  have b: "client one_participant ''p'' (Time_Mode_Change ''realtime'') =
             (one_participant\<lparr>timeMode := ''realtime''\<rparr>, [IoEmit (TimeModeUpdate ''realtime'')])"
    by simp
  show ?thesis using l m a b by simp
qed

section \<open>C7: the chat log\<close>

lemma drop_last_window:
  "drop (length (drop (length xs - n) xs @ ys) - n) (drop (length xs - n) xs @ ys) =
   drop (length (xs @ ys) - n) (xs @ ys)"
  by (cases "length xs \<le> n") (simp_all add: drop_append add.commute)

lemma chat_message_step:
  "chatMessages (fst (client s k (Chat_Message msg newId now))) =
     drop (length (chatMessages s @ sent_messages s (k, msg, newId, now)) - 100)
       (chatMessages s @ sent_messages s (k, msg, newId, now)) \<or>
   (sent_messages s (k, msg, newId, now) = [] \<and>
    chatMessages (fst (client s k (Chat_Message msg newId now))) = chatMessages s)"
  "users (fst (client s k (Chat_Message msg newId now))) = users s"
  by (auto simp: client_def handle_def chat_message_def as_participant_def
      sent_messages_def Let_def split: option.splits)

lemma chat_run:
  assumes "length (chatMessages s) \<le> 100"
  shows "chatMessages (fst (run_clients s (map chat_event subs))) =
           drop (length (chatMessages s @ concat (map (sent_messages s) subs)) - 100)
             (chatMessages s @ concat (map (sent_messages s) subs))"
  using assms
proof (induction subs arbitrary: s)
  case Nil
  then show ?case by simp
next
  case (Cons x subs)
  obtain k msg newId now where x: "x = (k, msg, newId, now)" by (cases x)
  let ?s1 = "fst (client s k (Chat_Message msg newId now))"
  let ?m = "sent_messages s (k, msg, newId, now)"
  let ?rest = "concat (map (sent_messages s) subs)"
  have u: "users ?s1 = users s" by (rule chat_message_step(2))
  have same: "sent_messages ?s1 = sent_messages s"
    by (rule ext) (simp add: sent_messages_def u)
  have step: "fst (run_clients s (map chat_event (x # subs))) =
      fst (run_clients ?s1 (map chat_event subs))"
    by (simp add: x chat_event_def Let_def)
  from chat_message_step(1) [of s k msg newId now]
  show ?case
  proof (elim disjE conjE)
    assume c: "chatMessages ?s1 = drop (length (chatMessages s @ ?m) - 100) (chatMessages s @ ?m)"
    then have "length (chatMessages ?s1) \<le> 100" by simp
    from Cons.IH [OF this]
    have "chatMessages (fst (run_clients ?s1 (map chat_event subs))) =
        drop (length (chatMessages ?s1 @ ?rest) - 100) (chatMessages ?s1 @ ?rest)"
      by (simp add: same)
    then show ?thesis
      unfolding step c using drop_last_window [of "chatMessages s @ ?m" 100 ?rest]
      by (simp add: x)
  next
    assume e: "?m = []" and c: "chatMessages ?s1 = chatMessages s"
    from Cons.IH [of ?s1] Cons.prems
    have "chatMessages (fst (run_clients ?s1 (map chat_event subs))) =
        drop (length (chatMessages s @ ?rest) - 100) (chatMessages s @ ?rest)"
      by (simp add: same c)
    then show ?thesis
      unfolding step using e by (simp add: x)
  qed
qed

text \<open>
  Claim C7. Let sessions submit chat messages one after the other, in a state whose chat
  log has at most 100 messages. The log is then the last 100 of the old log followed by
  the messages of the participants' submissions, in the order submitted (all of them when
  they are fewer): it never has more than 100 messages, and has exactly 100 once 100 are
  there.
\<close>

theorem chat_log_keeps_last_100:
  "length (chatMessages s) \<le> 100 \<longrightarrow>
   (let s' = fst (run_clients s (map chat_event subs));
        all = chatMessages s @ concat (map (sent_messages s) subs)
    in chatMessages s' = drop (length all - 100) all \<and>
       length (chatMessages s') \<le> 100 \<and>
       (100 \<le> length all \<longrightarrow> length (chatMessages s') = 100))"
proof
  assume h: "length (chatMessages s) \<le> 100"
  define every where "every = chatMessages s @ concat (map (sent_messages s) subs)"
  have c: "chatMessages (fst (run_clients s (map chat_event subs))) =
      drop (length every - 100) every"
    unfolding every_def by (rule chat_run [OF h])
  have l: "length (drop (length every - 100) every) \<le> 100"
    and m: "100 \<le> length every \<longrightarrow> length (drop (length every - 100) every) = 100"
    by simp_all
  show "let s' = fst (run_clients s (map chat_event subs));
        all = chatMessages s @ concat (map (sent_messages s) subs)
    in chatMessages s' = drop (length all - 100) all \<and>
       length (chatMessages s') \<le> 100 \<and>
       (100 \<le> length all \<longrightarrow> length (chatMessages s') = 100)"
    unfolding Let_def every_def [symmetric] c using l m by (intro conjI) simp_all
qed

text \<open>
  The theorem at 105 submissions of a participant into the empty log: the log holds 100
  messages, the sixth to the last in the order submitted.
\<close>

theorem chat_log_keeps_last_100_witness:
  "chatMessages one_participant = [] \<and> length chat_105 = 105 \<and>
   is_participant one_participant ''p'' \<and>
   length (chatMessages (fst (run_clients one_participant (map chat_event chat_105)))) = 100 \<and>
   map m_id (chatMessages (fst (run_clients one_participant (map chat_event chat_105)))) =
     map (\<lambda>i. replicate i (CHR ''m'')) [5..<105]"
proof -
  define p where "p = \<lparr>u_id = ''p'', u_name = ''10.0.0.7'', u_isTyping = False,
      u_currentTimecode = None, u_currentLxCue = None, u_joinedAt = ''t0'',
      u_isOverlay = False, u_isAnonymous = True\<rparr>"
  have us: "users one_participant = [(''p'', p)]"
    by (simp add: one_participant_def initial_state_def connection_def userIP_of_def Let_def
        p_def)
  have o: "\<not> u_isOverlay p" by (simp add: p_def)
  have ip: "is_participant one_participant ''p''"
    by (simp add: is_participant_def us o)
  have e: "chatMessages one_participant = []"
    by (simp add: one_participant_def initial_state_def connection_def Let_def)
  have n: "length chat_105 = 105"
    by (simp add: chat_105_def)
  have s: "concat (map (sent_messages one_participant) chat_105) =
      map (\<lambda>i. \<lparr>m_id = replicate i (CHR ''m''), m_user = u_name p, m_userId = u_id p,
                 m_text = ''standby'', m_timestamp = ''t1''\<rparr>) [0..<105]"
    by (simp add: chat_105_def sent_messages_def us o comp_def concat_map_singleton)
  from e chat_log_keeps_last_100 [of one_participant chat_105]
  have c: "chatMessages (fst (run_clients one_participant (map chat_event chat_105))) =
      drop 5 (map (\<lambda>i. \<lparr>m_id = replicate i (CHR ''m''), m_user = u_name p, m_userId = u_id p,
                 m_text = ''standby'', m_timestamp = ''t1''\<rparr>) [0..<105])"
    by (simp add: Let_def s)
  then have "map m_id (chatMessages (fst (run_clients one_participant (map chat_event chat_105)))) =
      map (\<lambda>i. replicate i (CHR ''m'')) [5..<105]"
    by (simp add: drop_map comp_def)
  with e n ip c show ?thesis by simp
qed

section \<open>C5: the name change\<close>

text \<open>
  Claim C5. Let a session that is not an overlay ask for a new name. When another session
  that is not an overlay holds that name, letter case apart (\<open>toLowerCase\<close> gives the same
  string for both, accented capital letters included), the state stays as it is (so
  both names stay) and the only effect is a \<open>name-change-error\<close> sent to the asking socket.
  Otherwise the session gets the name and is no longer anonymous, the other sessions and
  the order of the roster stay, every note and every comment whose \<open>userId\<close> is this
  session's id carries the new name as its \<open>user\<close> while the other notes and comments
  keep theirs, ids, author ids and texts stay, and the roster and the notes are broadcast
  and \<open>name-change-success\<close> is sent to the asking socket.
\<close>

theorem rename_collision_or_success:
  "wf_users s \<and> map_of (users s) k = Some user \<and> \<not> u_isOverlay user \<longrightarrow>
   (let r = client s k (User_Name_Change newName) in
    if name_held_by_other s k newName
    then fst r = s \<and>
         snd r = [SocketEmit k (NameChangeError (''Name '' @ [CHR 0x22] @ newName @ [CHR 0x22] @
                    '' is already taken. Please choose a different name.''))]
    else map_of (users (fst r)) k = Some (user\<lparr>u_name := newName, u_isAnonymous := False\<rparr>) \<and>
         (\<forall>k'. k' \<noteq> k \<longrightarrow> map_of (users (fst r)) k' = map_of (users s) k') \<and>
         map fst (users (fst r)) = map fst (users s) \<and>
         length (notes (fst r)) = length (notes s) \<and>
         (\<forall>i < length (notes s).
            n_user (notes (fst r) ! i) =
              (if n_userId (notes s ! i) = k then newName else n_user (notes s ! i)) \<and>
            n_id (notes (fst r) ! i) = n_id (notes s ! i) \<and>
            n_userId (notes (fst r) ! i) = n_userId (notes s ! i) \<and>
            n_text (notes (fst r) ! i) = n_text (notes s ! i) \<and>
            length (n_comments (notes (fst r) ! i)) = length (n_comments (notes s ! i)) \<and>
            (\<forall>j < length (n_comments (notes s ! i)).
               c_user (n_comments (notes (fst r) ! i) ! j) =
                 (if c_userId (n_comments (notes s ! i) ! j) = k then newName
                  else c_user (n_comments (notes s ! i) ! j)) \<and>
               c_id (n_comments (notes (fst r) ! i) ! j) = c_id (n_comments (notes s ! i) ! j) \<and>
               c_userId (n_comments (notes (fst r) ! i) ! j) =
                 c_userId (n_comments (notes s ! i) ! j) \<and>
               c_text (n_comments (notes (fst r) ! i) ! j) =
                 c_text (n_comments (notes s ! i) ! j))) \<and>
         snd r = [IoEmit (UsersUpdate (filteredUsers (fst r))), IoEmit (NotesUpdate (notes (fst r))),
                  SocketEmit k (NameChangeSuccess
                        (''Name changed from '' @ [CHR 0x22] @ u_name user @ [CHR 0x22] @
                         '' to '' @ [CHR 0x22] @ newName @ [CHR 0x22]))])"
proof
  assume h: "wf_users s \<and> map_of (users s) k = Some user \<and> \<not> u_isOverlay user"
  then have wf: "wf_users s" and u: "map_of (users s) k = Some user" and p: "\<not> u_isOverlay user"
    by simp_all
  have "(k, user) \<in> set (users s)" using u by (rule map_of_SomeD)
  then have id: "u_id user = k" and key: "k \<in> fst ` set (users s)"
    using wf by (force simp: wf_users_def list_all_iff)+
  note t = isNameTaken_wf [OF wf u, of newName]
  show "let r = client s k (User_Name_Change newName) in
    if name_held_by_other s k newName
    then fst r = s \<and>
         snd r = [SocketEmit k (NameChangeError (''Name '' @ [CHR 0x22] @ newName @ [CHR 0x22] @
                    '' is already taken. Please choose a different name.''))]
    else map_of (users (fst r)) k = Some (user\<lparr>u_name := newName, u_isAnonymous := False\<rparr>) \<and>
         (\<forall>k'. k' \<noteq> k \<longrightarrow> map_of (users (fst r)) k' = map_of (users s) k') \<and>
         map fst (users (fst r)) = map fst (users s) \<and>
         length (notes (fst r)) = length (notes s) \<and>
         (\<forall>i < length (notes s).
            n_user (notes (fst r) ! i) =
              (if n_userId (notes s ! i) = k then newName else n_user (notes s ! i)) \<and>
            n_id (notes (fst r) ! i) = n_id (notes s ! i) \<and>
            n_userId (notes (fst r) ! i) = n_userId (notes s ! i) \<and>
            n_text (notes (fst r) ! i) = n_text (notes s ! i) \<and>
            length (n_comments (notes (fst r) ! i)) = length (n_comments (notes s ! i)) \<and>
            (\<forall>j < length (n_comments (notes s ! i)).
               c_user (n_comments (notes (fst r) ! i) ! j) =
                 (if c_userId (n_comments (notes s ! i) ! j) = k then newName
                  else c_user (n_comments (notes s ! i) ! j)) \<and>
               c_id (n_comments (notes (fst r) ! i) ! j) = c_id (n_comments (notes s ! i) ! j) \<and>
               c_userId (n_comments (notes (fst r) ! i) ! j) =
                 c_userId (n_comments (notes s ! i) ! j) \<and>
               c_text (n_comments (notes (fst r) ! i) ! j) =
                 c_text (n_comments (notes s ! i) ! j))) \<and>
         snd r = [IoEmit (UsersUpdate (filteredUsers (fst r))), IoEmit (NotesUpdate (notes (fst r))),
                  SocketEmit k (NameChangeSuccess
                        (''Name changed from '' @ [CHR 0x22] @ u_name user @ [CHR 0x22] @
                         '' to '' @ [CHR 0x22] @ newName @ [CHR 0x22]))]"
  proof (cases "name_held_by_other s k newName")
    case True
    then show ?thesis
      using user_name_change_taken [OF u p, of newName] t by (simp add: Let_def)
  next
    case False
    then have "\<not> isNameTaken s user newName" using t by simp
    from user_name_change_free [OF u p this] False show ?thesis
      by (simp add: Let_def id update_conv' update_keys key rename_note_fields rename_comment_fields)
  qed
qed

text \<open>
  The theorem in \<open>rename_scene\<close>: the anonymous participant asks for ALICE, which is
  refused, and then for Bob. In \<open>accent_scene\<close> the name asked for differs from the name
  held by the case of an accented letter (U+00C9 for U+00E9), and is refused too.
\<close>

theorem rename_collision_or_success_witness:
  "wf_users rename_scene \<and>
   map (\<lambda>x. (fst x, u_name (snd x), u_isOverlay (snd x), u_isAnonymous (snd x))) (users rename_scene) =
     [(''p'', ''10.0.0.7'', False, True), (''q'', ''Alice'', False, False)] \<and>
   name_held_by_other rename_scene ''p'' ''ALICE'' \<and>
   client rename_scene ''p'' (User_Name_Change ''ALICE'') =
     (rename_scene, [SocketEmit ''p'' (NameChangeError
        (''Name '' @ [CHR 0x22] @ ''ALICE'' @ [CHR 0x22] @
         '' is already taken. Please choose a different name.''))]) \<and>
   \<not> name_held_by_other rename_scene ''p'' ''Bob'' \<and>
   map (\<lambda>x. (fst x, u_name (snd x), u_isOverlay (snd x), u_isAnonymous (snd x)))
     (users (fst (client rename_scene ''p'' (User_Name_Change ''Bob'')))) =
     [(''p'', ''Bob'', False, False), (''q'', ''Alice'', False, False)] \<and>
   n_user (notes (fst (client rename_scene ''p'' (User_Name_Change ''Bob''))) ! 0) = ''Bob'' \<and>
   c_user (n_comments (notes (fst (client rename_scene ''p'' (User_Name_Change ''Bob''))) ! 0) ! 0) =
     ''Alice'' \<and>
   c_user (n_comments (notes (fst (client rename_scene ''p'' (User_Name_Change ''Bob''))) ! 0) ! 1) =
     ''Bob'' \<and>
   map (\<lambda>x. (fst x, u_name (snd x), u_isOverlay (snd x))) (users accent_scene) =
     [(''p'', ''10.0.0.7'', False), (''q'', CHR 0xE9 # ''milie'', False)] \<and>
   name_held_by_other accent_scene ''p'' (CHR 0xC9 # ''MILIE'') \<and>
   client accent_scene ''p'' (User_Name_Change (CHR 0xC9 # ''MILIE'')) =
     (accent_scene, [SocketEmit ''p'' (NameChangeError
        (''Name '' @ [CHR 0x22] @ (CHR 0xC9 # ''MILIE'') @ [CHR 0x22] @
         '' is already taken. Please choose a different name.''))])"
proof -
  define p where "p = \<lparr>u_id = ''p'', u_name = ''10.0.0.7'', u_isTyping = False,
      u_currentTimecode = None, u_currentLxCue = None, u_joinedAt = ''t0'',
      u_isOverlay = False, u_isAnonymous = True\<rparr>"
  define q where "q = \<lparr>u_id = ''q'', u_name = ''Alice'', u_isTyping = False,
      u_currentTimecode = None, u_currentLxCue = None, u_joinedAt = ''t1'',
      u_isOverlay = False, u_isAnonymous = False\<rparr>"
  have us: "users rename_scene = [(''p'', p), (''q'', q)]"
    by (simp add: rename_scene_users p_def q_def)
  obtain n c1 c2 where n: "notes rename_scene = [n]" "n_userId n = ''p''" "n_user n = ''10.0.0.7''"
      "n_comments n = [c1, c2]" "c_userId c1 = ''q''" "c_user c1 = ''Alice''"
      "c_userId c2 = ''p''" "c_user c2 = ''10.0.0.7''"
    using rename_scene_notes by auto
  have wf: "wf_users rename_scene"
    by (simp add: wf_users_def us) (simp add: p_def q_def)
  have h: "wf_users rename_scene \<and> map_of (users rename_scene) ''p'' = Some p \<and> \<not> u_isOverlay p"
    using wf by (simp add: us) (simp add: p_def)
  have l: "map (\<lambda>x. (fst x, u_name (snd x), u_isOverlay (snd x), u_isAnonymous (snd x)))
      (users rename_scene) = [(''p'', ''10.0.0.7'', False, True), (''q'', ''Alice'', False, False)]"
    by (simp add: us) (simp add: p_def q_def)
  have taken: "name_held_by_other rename_scene ''p'' ''ALICE''"
    by (simp add: name_held_by_other_def us) (simp add: q_def toLowerCase_examples)
  have free: "\<not> name_held_by_other rename_scene ''p'' ''Bob''"
    by (simp add: name_held_by_other_def us) (simp add: q_def toLowerCase_examples)
  from h taken rename_collision_or_success [of rename_scene "''p''" p "''ALICE''"]
  have a: "client rename_scene ''p'' (User_Name_Change ''ALICE'') =
     (rename_scene, [SocketEmit ''p'' (NameChangeError
        (''Name '' @ [CHR 0x22] @ ''ALICE'' @ [CHR 0x22] @
         '' is already taken. Please choose a different name.''))])"
    by (simp add: Let_def prod_eq_iff)
  define r where "r = client rename_scene ''p'' (User_Name_Change ''Bob'')"
  from h free rename_collision_or_success [of rename_scene "''p''" p "''Bob''"]
  have b: "map_of (users (fst r)) ''p'' = Some (p\<lparr>u_name := ''Bob'', u_isAnonymous := False\<rparr>)"
    and b2: "map_of (users (fst r)) ''q'' = map_of (users rename_scene) ''q''"
    and b3: "map fst (users (fst r)) = map fst (users rename_scene)"
    and b4: "\<forall>i < length (notes rename_scene).
            n_user (notes (fst r) ! i) =
              (if n_userId (notes rename_scene ! i) = ''p'' then ''Bob''
               else n_user (notes rename_scene ! i)) \<and>
            (\<forall>j < length (n_comments (notes rename_scene ! i)).
               c_user (n_comments (notes (fst r) ! i) ! j) =
                 (if c_userId (n_comments (notes rename_scene ! i) ! j) = ''p'' then ''Bob''
                  else c_user (n_comments (notes rename_scene ! i) ! j)))"
    unfolding r_def Let_def by simp_all
  from b4 have c: "n_user (notes (fst r) ! 0) = ''Bob''"
    "c_user (n_comments (notes (fst r) ! 0) ! 0) = ''Alice''"
    "c_user (n_comments (notes (fst r) ! 0) ! 1) = ''Bob''"
    by (simp_all add: n)
  obtain x y where xy: "users (fst r) = [x, y]" "fst x = ''p''" "fst y = ''q''"
    using b3 by (auto simp: us map_eq_Cons_conv)
  have "snd x = p\<lparr>u_name := ''Bob'', u_isAnonymous := False\<rparr>" "snd y = q"
    using b b2 xy by (auto simp: us split: if_splits)
  then have d: "map (\<lambda>x. (fst x, u_name (snd x), u_isOverlay (snd x), u_isAnonymous (snd x)))
     (users (fst r)) = [(''p'', ''Bob'', False, False), (''q'', ''Alice'', False, False)]"
    by (simp add: xy) (simp add: p_def q_def)
  define q' where "q' = \<lparr>u_id = ''q'', u_name = CHR 0xE9 # ''milie'', u_isTyping = False,
      u_currentTimecode = None, u_currentLxCue = None, u_joinedAt = ''t1'',
      u_isOverlay = False, u_isAnonymous = False\<rparr>"
  have us': "users accent_scene = [(''p'', p), (''q'', q')]"
    by (simp add: accent_scene_users p_def q'_def)
  have wf': "wf_users accent_scene"
    by (simp add: wf_users_def us') (simp add: p_def q'_def)
  have h': "wf_users accent_scene \<and> map_of (users accent_scene) ''p'' = Some p \<and> \<not> u_isOverlay p"
    using wf' by (simp add: us') (simp add: p_def)
  have l': "map (\<lambda>x. (fst x, u_name (snd x), u_isOverlay (snd x))) (users accent_scene) =
     [(''p'', ''10.0.0.7'', False), (''q'', CHR 0xE9 # ''milie'', False)]"
    by (simp add: us') (simp add: p_def q'_def)
  have taken': "name_held_by_other accent_scene ''p'' (CHR 0xC9 # ''MILIE'')"
    by (simp add: name_held_by_other_def us') (simp add: q'_def toLowerCase_accent)
  from h' taken' rename_collision_or_success [of accent_scene "''p''" p "CHR 0xC9 # ''MILIE''"]
  have a': "client accent_scene ''p'' (User_Name_Change (CHR 0xC9 # ''MILIE'')) =
     (accent_scene, [SocketEmit ''p'' (NameChangeError
        (''Name '' @ [CHR 0x22] @ (CHR 0xC9 # ''MILIE'') @ [CHR 0x22] @
         '' is already taken. Please choose a different name.''))])"
    by (simp add: Let_def prod_eq_iff)
  show ?thesis
    using wf l taken a free d c l' taken' a' unfolding r_def by (intro conjI)
qed

section \<open>C8: references to missing notes and comments\<close>

lemma update_first_id:
  assumes "find p xs = Some x" "f x = x"
  shows "update_first p f xs = xs"
  using assms by (induction xs) (auto split: if_splits)

lemma find_None_filter: "find p xs = None \<Longrightarrow> filter (\<lambda>x. \<not> p x) xs = xs"
  by (induction xs) (auto split: if_splits)

lemma missing_note_noop:
  assumes "\<not> has_note s noteId"
  shows "client s k (Comment_Submit noteId body newId now) = (s, [])"
    and "client s k (Comment_Edit noteId commentId newText now) = (s, [])"
    and "client s k (Comment_Delete noteId commentId) = (s, [])"
    and "client s k (Note_Edit_Text noteId newText now) = (s, [])"
    and "client s k (Note_Update_Tags noteId tgs) = (s, [])"
  using assms
  by (simp_all add: client_def handle_def as_participant_def has_note_def comment_submit_def
      comment_edit_def comment_delete_def note_edit_text_def note_update_tags_def
      split: option.splits)

lemma missing_comment_noop:
  assumes "find (\<lambda>n. n_id n = noteId) (notes s) = Some found"
    and "find (\<lambda>c. c_id c = commentId) (n_comments found) = None"
  shows "client s k (Comment_Edit noteId commentId newText now) = (s, [])"
    and "fst (client s k (Comment_Delete noteId commentId)) = s"
proof -
  show "client s k (Comment_Edit noteId commentId newText now) = (s, [])"
    using assms
    by (simp add: client_def handle_def as_participant_def comment_edit_def split: option.splits)
  have "found\<lparr>n_comments := filter (\<lambda>c. c_id c \<noteq> commentId) (n_comments found)\<rparr> = found"
    using find_None_filter [OF assms(2)] by simp
  with assms(1) have "update_first (\<lambda>n. n_id n = noteId)
      (\<lambda>n. n\<lparr>n_comments := filter (\<lambda>c. c_id c \<noteq> commentId) (n_comments n)\<rparr>) (notes s) = notes s"
    by (rule update_first_id)
  then show "fst (client s k (Comment_Delete noteId commentId)) = s"
    by (simp add: client_def handle_def as_participant_def comment_delete_def Let_def
        split: option.splits)
qed

text \<open>
  Claim C8, as amended. An event that names a note id that no note has (comment submit,
  edit and delete, note text edit, note tag update) is a no-op: the state stays as it is
  and nothing is emitted, neither a broadcast nor a message to the sender. The same holds
  for a comment edit that names an existing note and a comment id that none of its
  comments has; a comment delete that does so leaves the state as it is.
\<close>

theorem missing_reference_is_noop:
  "(\<not> has_note s noteId \<longrightarrow>
      client s k (Comment_Submit noteId body newId now) = (s, []) \<and>
      client s k (Comment_Edit noteId commentId newText now) = (s, []) \<and>
      client s k (Comment_Delete noteId commentId) = (s, []) \<and>
      client s k (Note_Edit_Text noteId newText now) = (s, []) \<and>
      client s k (Note_Update_Tags noteId tgs) = (s, [])) \<and>
   (find (\<lambda>n. n_id n = noteId) (notes s) = Some found \<and>
    find (\<lambda>c. c_id c = commentId) (n_comments found) = None \<longrightarrow>
      client s k (Comment_Edit noteId commentId newText now) = (s, []) \<and>
      fst (client s k (Comment_Delete noteId commentId)) = s)"
  using missing_note_noop [of s noteId] missing_comment_noop [of noteId s found commentId]
  by blast

lemma rename_scene_note:
  "\<exists>n c1 c2. notes rename_scene = [n] \<and> n_id n = ''n1'' \<and> n_comments n = [c1, c2] \<and>
     c_id c1 = ''c1'' \<and> c_id c2 = ''c2''"
  using rename_scene_notes by auto

text \<open>
  The theorem in \<open>rename_scene\<close>, for the note id \<open>n9\<close> that no note has and the comment
  id \<open>c9\<close> that no comment of the note \<open>n1\<close> has.
\<close>

theorem missing_reference_is_noop_witness:
  "\<not> has_note rename_scene ''n9'' \<and>
   client rename_scene ''p'' (Comment_Submit ''n9'' ''hello'' ''c3'' ''t5'') = (rename_scene, []) \<and>
   client rename_scene ''p'' (Note_Edit_Text ''n9'' ''hello'' ''t5'') = (rename_scene, []) \<and>
   client rename_scene ''p'' (Comment_Edit ''n1'' ''c9'' ''hello'' ''t5'') = (rename_scene, []) \<and>
   fst (client rename_scene ''p'' (Comment_Delete ''n1'' ''c9'')) = rename_scene"
proof -
  obtain n c1 c2 where n: "notes rename_scene = [n]" "n_id n = ''n1''" "n_comments n = [c1, c2]"
      "c_id c1 = ''c1''" "c_id c2 = ''c2''"
    using rename_scene_note by blast
  have a: "\<not> has_note rename_scene ''n9''"
    by (simp add: has_note_def n)
  have b: "find (\<lambda>n. n_id n = ''n1'') (notes rename_scene) = Some n \<and>
           find (\<lambda>c. c_id c = ''c9'') (n_comments n) = None"
    by (simp add: n)
  from a b missing_reference_is_noop [of rename_scene "''n9''" "''p''" "''hello''" "''c3''" "''t5''"
      _ "''hello''" _ n]
    missing_reference_is_noop [of rename_scene "''n1''" "''p''" _ _ "''t5''" "''c9''" "''hello''" _ n]
  show ?thesis by blast
qed

text \<open>
  Claim C8 as stated says that the not-found error is reported to the sender, and that
  there is no broadcast. In \<open>rename_scene\<close> a comment submitted to the missing note \<open>n9\<close>
  is answered by nothing at all, and the deletion of the missing comment \<open>c9\<close> of the
  note \<open>n1\<close> broadcasts the notes.
\<close>

theorem missing_reference_not_reported:
  "\<not> has_note rename_scene ''n9'' \<and>
   snd (client rename_scene ''p'' (Comment_Submit ''n9'' ''hello'' ''c3'' ''t5'')) = [] \<and>
   snd (client rename_scene ''p'' (Comment_Delete ''n1'' ''c9'')) =
     [IoEmit (NotesUpdate (notes rename_scene))]"
proof -
  obtain n c1 c2 where n: "notes rename_scene = [n]" "n_id n = ''n1''" "n_comments n = [c1, c2]"
      "c_id c1 = ''c1''" "c_id c2 = ''c2''"
    using rename_scene_note by blast
  have p: "as_participant rename_scene ''p'' = (\<lambda>h. h (snd (hd (users rename_scene))))"
    by (rule ext) (simp add: as_participant_def rename_scene_users)
  have c: "\<And>e. client rename_scene ''p'' e = handle rename_scene ''p'' e"
    by (simp add: client_def rename_scene_users)
  have 1: "\<not> has_note rename_scene ''n9''"
    by (simp add: has_note_def n)
  then have 2: "snd (client rename_scene ''p'' (Comment_Submit ''n9'' ''hello'' ''c3'' ''t5'')) = []"
    by (simp add: c handle_def comment_submit_def p)
  have "has_note rename_scene ''n1''"
    by (simp add: has_note_def n)
  then have 3: "snd (client rename_scene ''p'' (Comment_Delete ''n1'' ''c9'')) =
     [IoEmit (NotesUpdate (notes rename_scene))]"
    by (simp add: c handle_def comment_delete_def p Let_def n)
  show ?thesis using 1 2 3 by (intro conjI)
qed

section \<open>C6: who is listed in, and who triggers, the roster and chat broadcasts\<close>

lemma filteredUsers_no_overlay: "list_all (\<lambda>u. \<not> u_isOverlay u) (filteredUsers s)"
  by (simp add: filteredUsers_def list_all_iff)

lemma no_overlay_listed_simps:
  "no_overlay_listed []"
  "no_overlay_listed (IoEmit (UsersUpdate (filteredUsers s)) # es) = no_overlay_listed es"
  "no_overlay_listed (SocketEmit k (UsersUpdate (filteredUsers s)) # es) = no_overlay_listed es"
  "no_overlay_listed (SocketEmit k (UsersUpdate []) # es) = no_overlay_listed es"
  "\<And>m. \<not> roster_or_chat m \<Longrightarrow> no_overlay_listed (IoEmit m # es) = no_overlay_listed es"
  "\<And>m. \<not> roster_or_chat m \<Longrightarrow> no_overlay_listed (SocketEmit k m # es) = no_overlay_listed es"
  "no_overlay_listed (IoEmit (UserJoined n c) # es) = no_overlay_listed es"
  "no_overlay_listed (IoEmit (UserLeft n c) # es) = no_overlay_listed es"
  "no_overlay_listed (IoEmit (ChatMessageAdded x) # es) = no_overlay_listed es"
  "no_overlay_listed (IoEmit (ChatMessagesUpdate xs) # es) = no_overlay_listed es"
  "no_overlay_listed (SocketEmit k (ChatMessagesUpdate xs) # es) = no_overlay_listed es"
  "no_overlay_listed (SaveTagsToFile ts # es) = no_overlay_listed es"
  "no_overlay_listed (SetTimeout k d # es) = no_overlay_listed es"
  "no_overlay_listed (SocketDisconnect k # es) = no_overlay_listed es"
  by (simp_all add: no_overlay_listed_def roster_of_def filteredUsers_no_overlay roster_or_chat_def
      split: message.splits)

lemma roster_or_chat_simps [simp]:
  "roster_or_chat (UsersUpdate us)" "roster_or_chat (UserJoined n c)" "roster_or_chat (UserLeft n c)"
  "roster_or_chat (ChatMessageAdded x)" "roster_or_chat (ChatMessagesUpdate xs)"
  "\<not> roster_or_chat (ActUpdate a)" "\<not> roster_or_chat (TimecodeUpdate tc)"
  "\<not> roster_or_chat (NotesUpdate ns)" "\<not> roster_or_chat (TagsUpdate ts)"
  "\<not> roster_or_chat (TimeModeUpdate tm)" "\<not> roster_or_chat (LxCueUpdate cue)"
  "\<not> roster_or_chat (SystemStatus b1 n1 p n2 b2)" "\<not> roster_or_chat (UserInitialName ip)"
  "\<not> roster_or_chat (NoteAdded nt)" "\<not> roster_or_chat (NameChangeError e)"
  "\<not> roster_or_chat (NameChangeSuccess e)" "\<not> roster_or_chat (ExportData f d)"
  by (simp_all add: roster_or_chat_def)

lemmas handler_defs = note_update_tags_def create_tag_def delete_tag_def saveTagsToFile_def typing_start_def
  typing_stop_def time_mode_change_def lx_cue_change_def note_submit_def comment_submit_def
  chat_message_def note_edit_text_def comment_edit_def comment_delete_def
  user_name_change_def export_request_def disconnect_def

lemma handle_no_overlay_listed: "no_overlay_listed (snd (handle s k ev))"
  by (cases ev)
    (simp_all add: handle_def handler_defs as_participant_def Let_def no_overlay_listed_simps
      split: option.splits)

lemma step_no_overlay_listed: "no_overlay_listed (snd (step s i))"
proof (cases i)
  case (Midi t v)
  then show ?thesis
    by (simp add: step_def parseEasyMIDIMTC_def parseCompleteMTC_def Let_def
        no_overlay_listed_simps)
next
  case (Osc a v)
  then show ?thesis
    by (simp add: step_def osc_message_def Let_def no_overlay_listed_simps split: option.splits)
next
  case (Connection k ip ov now pc)
  then show ?thesis
    by (simp add: step_def connection_def Let_def no_overlay_listed_simps)
next
  case (Client k ev)
  then show ?thesis
    by (simp add: step_def client_def handle_no_overlay_listed no_overlay_listed_simps)
qed

lemma timeout_no_overlay_listed: "no_overlay_listed (snd (anonymity_timeout s k))"
  by (simp add: anonymity_timeout_def disconnect_def Let_def no_overlay_listed_simps
      split: option.splits)

lemma rcb_simps [simp]:
  "roster_or_chat_broadcast (IoEmit m) = roster_or_chat m"
  "\<not> roster_or_chat_broadcast (SocketEmit k m)"
  "\<not> roster_or_chat_broadcast (SaveTagsToFile ts)"
  "\<not> roster_or_chat_broadcast (SetTimeout k d)"
  "\<not> roster_or_chat_broadcast (SocketDisconnect k)"
  by (simp_all add: roster_or_chat_broadcast_def)

lemma handle_broadcast_participant:
  assumes "list_ex roster_or_chat_broadcast (snd (handle s k ev))"
  shows "is_participant s k"
  using assms
  by (cases ev)
    (auto simp: handle_def handler_defs as_participant_def Let_def is_participant_def
      split: option.splits if_splits)

lemma client_broadcast_participant:
  assumes "list_ex roster_or_chat_broadcast (snd (client s k ev))"
  shows "is_participant s k"
  using assms handle_broadcast_participant [of s k ev]
  by (simp add: client_def split: if_splits)

lemma timeout_broadcast_participant:
  assumes "list_ex roster_or_chat_broadcast (snd (anonymity_timeout s k))"
  shows "is_participant s k"
  using assms
  by (auto simp: anonymity_timeout_def disconnect_def Let_def is_participant_def
      split: option.splits if_splits)

lemma connection_overlay_sent:
  "filter roster_or_chat_sent (snd (connection s k ip True now pc)) = [SocketEmit k (UsersUpdate [])]"
  by (simp add: connection_def Let_def roster_or_chat_sent_def)

lemma connection_broadcast:
  assumes "list_ex roster_or_chat_broadcast (snd (connection s k ip ov now pc))"
  shows "\<not> ov"
  using assms by (cases ov) (simp_all add: connection_def Let_def)

lemma signal_no_broadcast:
  "\<not> list_ex roster_or_chat_broadcast (snd (parseEasyMIDIMTC s t v))"
  "\<not> list_ex roster_or_chat_broadcast (snd (osc_message s a x))"
  by (simp_all add: parseEasyMIDIMTC_def parseCompleteMTC_def osc_message_def Let_def
      split: option.splits)

text \<open>
  Claim C6, as amended. No roster that the server sends lists an overlay session, whatever
  the input or the timer that makes it send one. A broadcast about the roster or the chat
  is triggered only by a session that is not an overlay: by its events, by the timer that
  disconnects it, or by its connection; the timecode and cue inputs trigger none. On its
  connection an overlay session is sent the empty roster, and nothing else about the roster
  or the chat.
\<close>

theorem roster_and_chat_overlay_filtered:
  "no_overlay_listed (snd (step s i)) \<and>
   no_overlay_listed (snd (anonymity_timeout s k)) \<and>
   (list_ex roster_or_chat_broadcast (snd (client s k ev)) \<longrightarrow> is_participant s k) \<and>
   (list_ex roster_or_chat_broadcast (snd (anonymity_timeout s k)) \<longrightarrow> is_participant s k) \<and>
   (list_ex roster_or_chat_broadcast (snd (connection s k ip ov now pc)) \<longrightarrow> \<not> ov) \<and>
   \<not> list_ex roster_or_chat_broadcast (snd (parseEasyMIDIMTC s t v)) \<and>
   \<not> list_ex roster_or_chat_broadcast (snd (osc_message s a x)) \<and>
   filter roster_or_chat_sent (snd (connection s k ip True now pc)) =
     [SocketEmit k (UsersUpdate [])]"
proof (intro conjI impI)
  show "no_overlay_listed (snd (step s i))" by (rule step_no_overlay_listed)
  show "no_overlay_listed (snd (anonymity_timeout s k))" by (rule timeout_no_overlay_listed)
  show "is_participant s k" if "list_ex roster_or_chat_broadcast (snd (client s k ev))"
    using that by (rule client_broadcast_participant)
  show "is_participant s k" if "list_ex roster_or_chat_broadcast (snd (anonymity_timeout s k))"
    using that by (rule timeout_broadcast_participant)
  show "\<not> ov" if "list_ex roster_or_chat_broadcast (snd (connection s k ip ov now pc))"
    using that by (rule connection_broadcast)
  show "\<not> list_ex roster_or_chat_broadcast (snd (parseEasyMIDIMTC s t v))"
    by (rule signal_no_broadcast)
  show "\<not> list_ex roster_or_chat_broadcast (snd (osc_message s a x))"
    by (rule signal_no_broadcast)
  show "filter roster_or_chat_sent (snd (connection s k ip True now pc)) =
     [SocketEmit k (UsersUpdate [])]"
    by (rule connection_overlay_sent)
qed

lemma overlay_scene_chat: "chatMessages overlay_scene = []"
  by (simp add: overlay_scene_def initial_state_def connection_def client_def handle_def
      note_submit_def as_participant_def userIP_of_examples Let_def)

text \<open>
  Claim C6 as stated says that overlay sessions are never among the receivers of these
  broadcasts. They are sent with \<open>io.emit\<close>, which reaches every connected socket: in
  \<open>overlay_scene\<close> the chat message of the participant and the roster after its
  \<open>typing-stop\<close> go to the overlay socket as well.
\<close>

theorem overlay_receives_roster_and_chat:
  "map (\<lambda>x. (fst x, u_isOverlay (snd x))) (users overlay_scene) = [(''p'', False), (''ov'', True)] \<and>
   snd (client overlay_scene ''p'' (Chat_Message ''standby'' ''m1'' ''t3'')) =
     [IoEmit (ChatMessageAdded \<lparr>m_id = ''m1'', m_user = ''10.0.0.7'', m_userId = ''p'',
        m_text = ''standby'', m_timestamp = ''t3''\<rparr>),
      IoEmit (ChatMessagesUpdate [\<lparr>m_id = ''m1'', m_user = ''10.0.0.7'', m_userId = ''p'',
        m_text = ''standby'', m_timestamp = ''t3''\<rparr>])] \<and>
   map (receivers (fst (client overlay_scene ''p'' (Chat_Message ''standby'' ''m1'' ''t3''))))
     (snd (client overlay_scene ''p'' (Chat_Message ''standby'' ''m1'' ''t3''))) =
     [[''p'', ''ov''], [''p'', ''ov'']] \<and>
   map roster_or_chat_broadcast (snd (client overlay_scene ''p'' Typing_Stop)) = [True] \<and>
   map (receivers (fst (client overlay_scene ''p'' Typing_Stop)))
     (snd (client overlay_scene ''p'' Typing_Stop)) = [[''p'', ''ov'']]"
proof -
  have c: "\<And>e. client overlay_scene ''p'' e = handle overlay_scene ''p'' e"
    by (simp add: client_def overlay_scene_users)
  have 1: "map (\<lambda>x. (fst x, u_isOverlay (snd x))) (users overlay_scene) =
      [(''p'', False), (''ov'', True)]"
    by (simp add: overlay_scene_users)
  have 2: "snd (client overlay_scene ''p'' (Chat_Message ''standby'' ''m1'' ''t3'')) =
     [IoEmit (ChatMessageAdded \<lparr>m_id = ''m1'', m_user = ''10.0.0.7'', m_userId = ''p'',
        m_text = ''standby'', m_timestamp = ''t3''\<rparr>),
      IoEmit (ChatMessagesUpdate [\<lparr>m_id = ''m1'', m_user = ''10.0.0.7'', m_userId = ''p'',
        m_text = ''standby'', m_timestamp = ''t3''\<rparr>])]"
    by (simp add: c handle_def chat_message_def as_participant_def overlay_scene_users
        overlay_scene_chat Let_def)
  have 3: "users (fst (client overlay_scene ''p'' (Chat_Message ''standby'' ''m1'' ''t3''))) =
      users overlay_scene"
    by (simp add: c handle_def chat_message_def as_participant_def overlay_scene_users Let_def)
  have 4: "map (receivers (fst (client overlay_scene ''p'' (Chat_Message ''standby'' ''m1'' ''t3''))))
     (snd (client overlay_scene ''p'' (Chat_Message ''standby'' ''m1'' ''t3''))) =
     [[''p'', ''ov''], [''p'', ''ov'']]"
    unfolding 2 by (simp add: receivers_def 3) (simp add: overlay_scene_users)
  have 5: "\<exists>us. snd (client overlay_scene ''p'' Typing_Stop) = [IoEmit (UsersUpdate us)]"
    by (simp add: c handle_def typing_stop_def as_participant_def overlay_scene_users Let_def)
  have 6: "map fst (users (fst (client overlay_scene ''p'' Typing_Stop))) = [''p'', ''ov'']"
    by (simp add: c handle_def typing_stop_def as_participant_def overlay_scene_users Let_def)
  from 5 obtain us where us: "snd (client overlay_scene ''p'' Typing_Stop) = [IoEmit (UsersUpdate us)]"
    by blast
  have 7: "map roster_or_chat_broadcast (snd (client overlay_scene ''p'' Typing_Stop)) = [True]"
    by (simp add: us)
  have 8: "map (receivers (fst (client overlay_scene ''p'' Typing_Stop)))
     (snd (client overlay_scene ''p'' Typing_Stop)) = [[''p'', ''ov'']]"
    by (simp add: us receivers_def 6)
  show ?thesis using 1 2 4 7 8 by (intro conjI)
qed

text \<open>
  The theorem in \<open>overlay_scene\<close>: the chat message of the participant is broadcast; the
  chat message, the disconnection and the connection of an overlay broadcast nothing about
  the roster or the chat.
\<close>

theorem roster_and_chat_overlay_filtered_witness:
  "list_ex roster_or_chat_broadcast
     (snd (client overlay_scene ''p'' (Chat_Message ''standby'' ''m1'' ''t3''))) \<and>
   is_participant overlay_scene ''p'' \<and>
   \<not> is_participant overlay_scene ''ov'' \<and>
   \<not> list_ex roster_or_chat_broadcast
     (snd (client overlay_scene ''ov'' (Chat_Message ''standby'' ''m1'' ''t3''))) \<and>
   \<not> list_ex roster_or_chat_broadcast (snd (client overlay_scene ''ov'' Disconnect)) \<and>
   \<not> list_ex roster_or_chat_broadcast
     (snd (connection overlay_scene ''ov2'' ''::ffff:10.0.0.9'' True ''t4'' 0))"
proof -
  have c: "\<And>e. client overlay_scene ''p'' e = handle overlay_scene ''p'' e"
    by (simp add: client_def overlay_scene_users)
  have a: "list_ex roster_or_chat_broadcast
     (snd (client overlay_scene ''p'' (Chat_Message ''standby'' ''m1'' ''t3'')))"
    by (simp add: c handle_def chat_message_def as_participant_def overlay_scene_users Let_def)
  have o: "\<not> is_participant overlay_scene ''ov''"
    by (simp add: is_participant_def overlay_scene_users)
  from a roster_and_chat_overlay_filtered [of overlay_scene "Midi 0 0" "''p''"
      "Chat_Message ''standby'' ''m1'' ''t3''" "''x''" True "''t''" 0 0 0 "''a''" None]
  have p: "is_participant overlay_scene ''p''" by simp
  from o roster_and_chat_overlay_filtered [of overlay_scene "Midi 0 0" "''ov''"
      "Chat_Message ''standby'' ''m1'' ''t3''" "''x''" True "''t''" 0 0 0 "''a''" None]
  have q: "\<not> list_ex roster_or_chat_broadcast
     (snd (client overlay_scene ''ov'' (Chat_Message ''standby'' ''m1'' ''t3'')))" by blast
  from o roster_and_chat_overlay_filtered [of overlay_scene "Midi 0 0" "''ov''"
      Disconnect "''x''" True "''t''" 0 0 0 "''a''" None]
  have r: "\<not> list_ex roster_or_chat_broadcast (snd (client overlay_scene ''ov'' Disconnect))"
    by blast
  from roster_and_chat_overlay_filtered [of overlay_scene "Midi 0 0" "''ov2''"
      Disconnect "''::ffff:10.0.0.9''" True "''t4''" 0 0 0 "''a''" None]
  have t: "\<not> list_ex roster_or_chat_broadcast
     (snd (connection overlay_scene ''ov2'' ''::ffff:10.0.0.9'' True ''t4'' 0))"
    by blast
  show ?thesis using a p o q r t by (intro conjI)
qed

section \<open>C9: the anonymity timer\<close>

subsection \<open>The timer callback\<close>

lemma timeout_other:
  assumes "k' \<noteq> k"
  shows "map_of (users (fst (anonymity_timeout s k'))) k = map_of (users s) k"
    and "SocketDisconnect k \<notin> set (snd (anonymity_timeout s k'))"
  using assms
  by (auto simp: anonymity_timeout_def disconnect_def Let_def split: option.splits)

lemma timeout_defused:
  assumes "\<not> anon_at s k"
  shows "users (fst (anonymity_timeout s k)) = users s" and "snd (anonymity_timeout s k) = []"
  using assms
  by (auto simp: anonymity_timeout_def anon_at_def Let_def split: option.splits)

lemma timeout_armed:
  assumes "anon_at s k"
  shows "map_of (users (fst (anonymity_timeout s k))) k = None"
    and "filter (\<lambda>e. e = SocketDisconnect k) (snd (anonymity_timeout s k)) = [SocketDisconnect k]"
  using assms
  by (auto simp: anonymity_timeout_def anon_at_def disconnect_def Let_def delete_conv'
      split: option.splits)

lemma timeout_no_success:
  "\<not> list_ex (name_change_success_to k) (snd (anonymity_timeout s k'))"
  by (auto simp: anonymity_timeout_def disconnect_def Let_def name_change_success_to_def
      split: option.splits)

lemma timeout_anon_at_other:
  "k' \<noteq> k \<Longrightarrow> anon_at (fst (anonymity_timeout s k')) k = anon_at s k"
  "k' \<noteq> k \<Longrightarrow> registered (fst (anonymity_timeout s k')) k = registered s k"
  by (simp_all add: anon_at_def registered_def timeout_other)

lemma timeout_anon_at_same:
  "\<not> anon_at (fst (anonymity_timeout s k)) k"
  by (cases "anon_at s k") (simp_all add: anon_at_def timeout_armed timeout_defused)

lemma timeout_registered:
  "\<not> registered s k \<Longrightarrow> \<not> registered (fst (anonymity_timeout s k')) k"
  by (cases "k' = k")
    (auto simp: registered_def timeout_other anonymity_timeout_def Let_def disconnect_def
      split: option.splits)


subsection \<open>The timers that are due\<close>

lemma timer_of_simp [simp]: "timer_of k (d, k') = (k' = k)"
  by (simp add: timer_of_def)

lemma forced_map_Pair:
  "SocketDisconnect k \<notin> set es \<Longrightarrow> filter (forced k) (map (Pair d) es) = []"
  by (auto simp: filter_empty_conv forced_def)

lemma fire_due_untouched:
  assumes "filter (timer_of k) ts = []"
  shows "map_of (users (fst (fire_due s ts t))) k = map_of (users s) k \<and>
         filter (forced k) (snd (snd (fire_due s ts t))) = []"
  using assms
proof (induction ts arbitrary: s)
  case Nil
  then show ?case by simp
next
  case (Cons x ts)
  obtain d k' where x: "x = (d, k')" by (cases x)
  from Cons.prems have rest: "filter (timer_of k) ts = []" and k: "k' \<noteq> k"
    by (auto simp: x split: if_splits)
  show ?case
    using Cons.IH [OF rest, of s] Cons.IH [OF rest, of "fst (anonymity_timeout s k')"]
      timeout_other [OF k, of s] forced_map_Pair [OF timeout_other(2) [OF k, of s], of d]
    by (simp add: x Let_def)
qed

lemma fire_due_defused:
  assumes "\<not> anon_at s k"
  shows "\<not> anon_at (fst (fire_due s ts t)) k \<and>
         filter (forced k) (snd (snd (fire_due s ts t))) = []"
  using assms
proof (induction ts arbitrary: s)
  case Nil
  then show ?case by simp
next
  case (Cons x ts)
  obtain d k' where x: "x = (d, k')" by (cases x)
  show ?case
  proof (cases "d \<le> t")
    case True
    let ?s1 = "fst (anonymity_timeout s k')"
    have a: "\<not> anon_at ?s1 k"
      using Cons.prems by (cases "k' = k") (simp_all add: timeout_anon_at_other timeout_anon_at_same)
    have o: "SocketDisconnect k \<notin> set (snd (anonymity_timeout s k'))"
      using Cons.prems by (cases "k' = k") (simp_all add: timeout_other timeout_defused)
    then have "filter (forced k) (map (Pair d) (snd (anonymity_timeout s k'))) = []"
      by (auto simp: filter_empty_conv forced_def)
    with Cons.IH [OF a] True show ?thesis
      by (simp add: x Let_def)
  next
    case False
    with Cons.IH [OF Cons.prems] show ?thesis
      by (simp add: x Let_def)
  qed
qed

lemma fire_due_registered:
  assumes "\<not> registered s k"
  shows "\<not> registered (fst (fire_due s ts t)) k"
  using assms
proof (induction ts arbitrary: s)
  case Nil
  then show ?case by simp
next
  case (Cons x ts)
  obtain d k' where x: "x = (d, k')" by (cases x)
  show ?case
    using Cons.IH [OF Cons.prems] Cons.IH [OF timeout_registered [OF Cons.prems, of k']]
    by (simp add: x Let_def)
qed

lemma fire_due_no_success:
  "\<not> list_ex (\<lambda>x. name_change_success_to k (snd x)) (snd (snd (fire_due s ts t)))"
proof (induction ts arbitrary: s)
  case Nil
  then show ?case by simp
next
  case (Cons x ts)
  obtain d k' where x: "x = (d, k')" by (cases x)
  have "\<not> list_ex (\<lambda>x. name_change_success_to k (snd x))
          (map (Pair d) (snd (anonymity_timeout s k')))"
    using timeout_no_success [of k s k'] by (simp add: list_ex_iff)
  then show ?case
    using Cons.IH [of s] Cons.IH [of "fst (anonymity_timeout s k')"]
    by (auto simp: x Let_def list_ex_iff)
qed

lemma fire_due_timers_subset:
  "filter (timer_of k) ts = [] \<Longrightarrow> filter (timer_of k) (fst (snd (fire_due s ts t))) = []"
proof (induction ts arbitrary: s)
  case Nil
  then show ?case by simp
next
  case (Cons x ts)
  obtain d k' where x: "x = (d, k')" by (cases x)
  from Cons.prems have "filter (timer_of k) ts = []" "\<not> timer_of k x"
    by (auto split: if_splits)
  with Cons.IH show ?case by (simp add: x Let_def)
qed

lemma fire_due_armed_early:
  assumes "anon_at s k" "filter (timer_of k) ts = [(due, k)]" "t < due"
  shows "anon_at (fst (fire_due s ts t)) k \<and>
         filter (timer_of k) (fst (snd (fire_due s ts t))) = [(due, k)] \<and>
         filter (forced k) (snd (snd (fire_due s ts t))) = []"
  using assms(1,2)
proof (induction ts arbitrary: s)
  case Nil
  then show ?case by simp
next
  case (Cons x ts)
  obtain d k' where x: "x = (d, k')" by (cases x)
  show ?case
  proof (cases "k' = k")
    case True
    then have d: "d = due" and rest: "filter (timer_of k) ts = []"
      using Cons.prems(2) by (simp_all add: x)
    have "\<not> d \<le> t" using d assms(3) by simp
    moreover have "filter (timer_of k) (fst (snd (fire_due s ts t))) = []"
      by (rule fire_due_timers_subset [OF rest])
    moreover have "anon_at (fst (fire_due s ts t)) k \<and>
        filter (forced k) (snd (snd (fire_due s ts t))) = []"
      using fire_due_untouched [OF rest, of s t] Cons.prems(1) by (simp add: anon_at_def)
    ultimately show ?thesis
      by (simp add: x True d Let_def)
  next
    case False
    then have rest: "filter (timer_of k) ts = [(due, k)]"
      using Cons.prems(2) by (simp add: x)
    show ?thesis
    proof (cases "d \<le> t")
      case True
      have a: "anon_at (fst (anonymity_timeout s k')) k"
        using Cons.prems(1) False by (simp add: timeout_anon_at_other)
      have "SocketDisconnect k \<notin> set (snd (anonymity_timeout s k'))"
        using False by (simp add: timeout_other)
      then have "filter (forced k) (map (Pair d) (snd (anonymity_timeout s k'))) = []"
        by (rule forced_map_Pair)
      with Cons.IH [OF a rest] True False show ?thesis
        by (simp add: x Let_def)
    next
      case False
      with Cons.IH [OF Cons.prems(1) rest] \<open>k' \<noteq> k\<close> show ?thesis
        by (simp add: x Let_def)
    qed
  qed
qed

lemma fire_due_armed_late:
  assumes "anon_at s k" "filter (timer_of k) ts = [(due, k)]" "due \<le> t"
  shows "\<not> registered (fst (fire_due s ts t)) k \<and>
         filter (timer_of k) (fst (snd (fire_due s ts t))) = [] \<and>
         filter (forced k) (snd (snd (fire_due s ts t))) = [(due, SocketDisconnect k)]"
  using assms(1,2)
proof (induction ts arbitrary: s)
  case Nil
  then show ?case by simp
next
  case (Cons x ts)
  obtain d k' where x: "x = (d, k')" by (cases x)
  show ?case
  proof (cases "k' = k")
    case True
    then have d: "d = due" and rest: "filter (timer_of k) ts = []"
      using Cons.prems(2) by (simp_all add: x)
    let ?s1 = "fst (anonymity_timeout s k)"
    have gone: "map_of (users ?s1) k = None"
      by (rule timeout_armed(1) [OF Cons.prems(1)])
    have "filter (forced k) (map (Pair due) (snd (anonymity_timeout s k))) =
        map (Pair due) (filter (\<lambda>e. e = SocketDisconnect k) (snd (anonymity_timeout s k)))"
      by (simp add: filter_map forced_def comp_def)
    then have out1: "filter (forced k) (map (Pair due) (snd (anonymity_timeout s k))) =
        [(due, SocketDisconnect k)]"
      by (simp add: timeout_armed(2) [OF Cons.prems(1)])
    from fire_due_untouched [OF rest, of ?s1 t] gone fire_due_timers_subset [OF rest, of ?s1 t]
      out1 assms(3)
    show ?thesis
      by (simp add: x True d Let_def registered_def)
  next
    case False
    then have rest: "filter (timer_of k) ts = [(due, k)]"
      using Cons.prems(2) by (simp add: x)
    show ?thesis
    proof (cases "d \<le> t")
      case True
      have a: "anon_at (fst (anonymity_timeout s k')) k"
        using Cons.prems(1) False by (simp add: timeout_anon_at_other)
      have "SocketDisconnect k \<notin> set (snd (anonymity_timeout s k'))"
        using False by (simp add: timeout_other)
      then have "filter (forced k) (map (Pair d) (snd (anonymity_timeout s k'))) = []"
        by (rule forced_map_Pair)
      with Cons.IH [OF a rest] True False show ?thesis
        by (simp add: x Let_def)
    next
      case False
      with Cons.IH [OF Cons.prems(1) rest] \<open>k' \<noteq> k\<close> show ?thesis
        by (simp add: x Let_def)
    qed
  qed
qed

subsection \<open>The steps of the server\<close>

lemma quiet_effect_not_success: "quiet_effect e \<Longrightarrow> \<not> name_change_success_to k e"
  by (simp add: quiet_effect_def name_change_success_to_def split: effect.splits message.splits)

lemma quiet_effect_facts:
  assumes "list_all quiet_effect es"
  shows "SocketDisconnect k \<notin> set es" "\<not> list_ex (name_change_success_to k) es"
    "new_timers t es = []"
proof -
  show "SocketDisconnect k \<notin> set es"
    using assms by (auto simp: list_all_iff quiet_effect_def)
  show "\<not> list_ex (name_change_success_to k) es"
    using assms quiet_effect_not_success by (auto simp: list_all_iff list_ex_iff)
  show "new_timers t es = []"
    using assms by (induction t es rule: new_timers.induct) (simp_all add: quiet_effect_def)
qed

lemma disconnect_effects_quiet: "list_all quiet_effect (snd (disconnect s k))"
  by (simp add: disconnect_def Let_def quiet_effect_def split: option.splits)

lemma rename_effects:
  "SocketDisconnect k \<notin> set (snd (user_name_change s k' n))"
  "new_timers t (snd (user_name_change s k' n)) = []"
  "k' \<noteq> k \<Longrightarrow> \<not> list_ex (name_change_success_to k) (snd (user_name_change s k' n))"
  by (simp_all add: user_name_change_def as_participant_def Let_def name_change_success_to_def
      split: option.splits)

lemma handle_effects:
  assumes "map_of (users s) k' = Some u"
  shows "SocketDisconnect k \<notin> set (snd (handle s k' ev))"
    and "new_timers t (snd (handle s k' ev)) = []"
    and "k' \<noteq> k \<Longrightarrow> \<not> list_ex (name_change_success_to k) (snd (handle s k' ev))"
proof -
  consider (plain) "plain_event ev" | (rename) n where "ev = User_Name_Change n"
    | (leave) "ev = Disconnect"
    by (cases ev) (simp_all add: plain_event_def)
  then have "SocketDisconnect k \<notin> set (snd (handle s k' ev)) \<and>
      new_timers t (snd (handle s k' ev)) = [] \<and>
      (k' \<noteq> k \<longrightarrow> \<not> list_ex (name_change_success_to k) (snd (handle s k' ev)))"
  proof cases
    case plain
    from plain_handle [OF assms plain] have "list_all quiet_effect (snd (handle s k' ev))"
      by simp
    then show ?thesis by (simp add: quiet_effect_facts)
  next
    case rename
    then show ?thesis by (simp add: handle_def rename_effects)
  next
    case leave
    then show ?thesis
      by (simp add: handle_def quiet_effect_facts [OF disconnect_effects_quiet])
  qed
  then show "SocketDisconnect k \<notin> set (snd (handle s k' ev))"
    and "new_timers t (snd (handle s k' ev)) = []"
    and "k' \<noteq> k \<Longrightarrow> \<not> list_ex (name_change_success_to k) (snd (handle s k' ev))"
    by simp_all
qed

lemma client_effects:
  "SocketDisconnect k \<notin> set (snd (client s k' ev))"
  "new_timers t (snd (client s k' ev)) = []"
  "k' \<noteq> k \<Longrightarrow> \<not> list_ex (name_change_success_to k) (snd (client s k' ev))"
  by (cases "map_of (users s) k'"; simp add: client_def handle_effects)+

lemma handle_users_other:
  assumes "map_of (users s) k' = Some u" "k' \<noteq> k"
  shows "map_of (users (fst (handle s k' ev))) k = map_of (users s) k"
proof -
  consider (plain) "plain_event ev" | (rename) n where "ev = User_Name_Change n"
    | (leave) "ev = Disconnect"
    by (cases ev) (simp_all add: plain_event_def)
  then show ?thesis
  proof cases
    case plain
    from plain_handle [OF assms(1) plain] assms(2) show ?thesis
      by (auto simp: update_conv')
  next
    case rename
    then show ?thesis
      using assms
      by (simp add: handle_def user_name_change_def as_participant_def Let_def update_conv')
  next
    case leave
    then show ?thesis
      using assms by (simp add: handle_def users_disconnect)
  qed
qed

lemma client_users_other:
  "k' \<noteq> k \<Longrightarrow> map_of (users (fst (client s k' ev))) k = map_of (users s) k"
  by (cases "map_of (users s) k'") (simp_all add: client_def handle_users_other)

lemma client_unregistered: "\<not> registered s k \<Longrightarrow> client s k ev = (s, [])"
  by (simp add: client_def registered_def)

lemma client_same_plain:
  assumes "plain_event ev"
  shows "anon_at (fst (client s k ev)) k = anon_at s k"
    and "\<not> list_ex (name_change_success_to k) (snd (client s k ev))"
proof -
  show "anon_at (fst (client s k ev)) k = anon_at s k"
  proof (cases "map_of (users s) k")
    case None
    then show ?thesis by (simp add: client_def)
  next
    case (Some u)
    from plain_handle [OF Some assms] Some show ?thesis
      by (auto simp: client_def anon_at_def update_conv')
  qed
  show "\<not> list_ex (name_change_success_to k) (snd (client s k ev))"
  proof (cases "map_of (users s) k")
    case None
    then show ?thesis by (simp add: client_def)
  next
    case (Some u)
    from plain_handle [OF Some assms] have "list_all quiet_effect (snd (handle s k ev))"
      by simp
    then show ?thesis using Some by (simp add: client_def quiet_effect_facts)
  qed
qed

lemma client_same_rename:
  "anon_at (fst (client s k (User_Name_Change n))) k =
     (anon_at s k \<and> \<not> list_ex (name_change_success_to k) (snd (client s k (User_Name_Change n))))"
  by (auto simp: client_def handle_def user_name_change_def as_participant_def Let_def
      anon_at_def update_conv' name_change_success_to_def split: option.splits)

lemma client_same_disconnect:
  "\<not> anon_at (fst (client s k Disconnect)) k"
  "\<not> list_ex (name_change_success_to k) (snd (client s k Disconnect))"
  by (auto simp: client_def handle_def disconnect_def Let_def anon_at_def delete_conv'
      name_change_success_to_def split: option.splits)

lemma connects_simps [simp]:
  "connects k (Midi t v) = False" "connects k (Osc a x) = False"
  "connects k (Client k' ev) = False"
  "connects k (Connection k' ip ov now pc) = (k' = k)"
  by (simp_all add: connects_def)

lemma ncs_simps [simp]:
  "\<not> name_change_success_to k (IoEmit m)"
  "\<not> name_change_success_to k (SetTimeout k' d)"
  "\<not> name_change_success_to k (SaveTagsToFile ts)"
  "\<not> name_change_success_to k (SocketDisconnect k')"
  "name_change_success_to k (SocketEmit k' m) = (k' = k \<and> (\<exists>x. m = NameChangeSuccess x))"
  by (auto simp: name_change_success_to_def split: message.splits)

lemma signal_effects:
  "SocketDisconnect k \<notin> set (snd (parseEasyMIDIMTC s t v))"
  "SocketDisconnect k \<notin> set (snd (osc_message s a x))"
  "\<not> list_ex (name_change_success_to k) (snd (parseEasyMIDIMTC s t v))"
  "\<not> list_ex (name_change_success_to k) (snd (osc_message s a x))"
  "new_timers t' (snd (parseEasyMIDIMTC s t v)) = []"
  "new_timers t' (snd (osc_message s a x)) = []"
  by (simp_all add: parseEasyMIDIMTC_def parseCompleteMTC_def osc_message_def Let_def
      split: option.splits)

lemma signal_users:
  "users (fst (parseEasyMIDIMTC s t v)) = users s"
  "users (fst (osc_message s a x)) = users s"
  by (simp_all add: parseEasyMIDIMTC_def parseCompleteMTC_def osc_message_def Let_def
      split: option.splits)

lemma connection_effects:
  "SocketDisconnect k \<notin> set (snd (connection s k' ip ov now pc))"
  "\<not> list_ex (name_change_success_to k) (snd (connection s k' ip ov now pc))"
  "new_timers t (snd (connection s k' ip ov now pc)) = (if ov then [] else [(t + 900000, k')])"
  by (simp_all add: connection_def Let_def)

lemma step_effects:
  assumes "\<not> connects k i"
  shows "SocketDisconnect k \<notin> set (snd (step s i))"
    and "filter (timer_of k) (new_timers t (snd (step s i))) = []"
proof -
  show "SocketDisconnect k \<notin> set (snd (step s i))"
    by (cases i) (simp_all add: step_def client_effects connection_effects signal_effects)
  show "filter (timer_of k) (new_timers t (snd (step s i))) = []"
    using assms
    by (cases i) (simp_all add: step_def client_effects connection_effects signal_effects)
qed

lemma step_other:
  assumes "\<not> connects k i" "\<forall>ev. i \<noteq> Client k ev"
  shows "map_of (users (fst (step s i))) k = map_of (users s) k"
    and "\<not> list_ex (name_change_success_to k) (snd (step s i))"
proof -
  show "map_of (users (fst (step s i))) k = map_of (users s) k"
    using assms
    by (cases i) (simp_all add: step_def signal_users client_users_other users_connection update_conv')
  show "\<not> list_ex (name_change_success_to k) (snd (step s i))"
    using assms
    by (cases i) (simp_all add: step_def client_effects connection_effects signal_effects)
qed

lemma step_anon:
  assumes "\<not> connects k i"
  shows "anon_at (fst (step s i)) k =
           (anon_at s k \<and> i \<noteq> Client k Disconnect \<and>
            \<not> list_ex (name_change_success_to k) (snd (step s i)))"
proof (cases "\<exists>ev. i = Client k ev")
  case True
  then obtain ev where i: "i = Client k ev" by blast
  consider (plain) "plain_event ev" | (rename) n where "ev = User_Name_Change n"
    | (leave) "ev = Disconnect"
    by (cases ev) (simp_all add: plain_event_def)
  then show ?thesis
  proof cases
    case plain
    then have "ev \<noteq> Disconnect" by (auto simp: plain_event_def)
    then show ?thesis using client_same_plain [OF plain, where s = s and k = k] by (simp add: i step_def)
  next
    case rename
    then show ?thesis using client_same_rename [where s = s and k = k] by (simp add: i step_def)
  next
    case leave
    then show ?thesis using client_same_disconnect [where s = s and k = k] by (simp add: i step_def)
  qed
next
  case False
  then have o: "\<forall>ev. i \<noteq> Client k ev" by blast
  from step_other [OF assms o, where s = s] o show ?thesis
    by (auto simp: anon_at_def)
qed

lemma step_registered:
  assumes "\<not> connects k i" "\<not> registered s k"
  shows "\<not> registered (fst (step s i)) k"
    and "\<not> list_ex (name_change_success_to k) (snd (step s i))"
proof -
  have "\<not> registered (fst (step s i)) k \<and> \<not> list_ex (name_change_success_to k) (snd (step s i))"
  proof (cases "\<exists>ev. i = Client k ev")
    case True
    then obtain ev where i: "i = Client k ev" by blast
    show ?thesis using assms(2) by (simp add: i step_def client_unregistered)
  next
    case False
    then have o: "\<forall>ev. i \<noteq> Client k ev" by blast
    from step_other [OF assms(1) o, where s = s] assms(2) show ?thesis
      by (simp add: registered_def)
  qed
  then show "\<not> registered (fst (step s i)) k"
    and "\<not> list_ex (name_change_success_to k) (snd (step s i))"
    by simp_all
qed

subsection \<open>The delivery of an input\<close>

lemma renamed_simps [simp]:
  "renamed k [] = False"
  "renamed k (xs @ ys) = (renamed k xs \<or> renamed k ys)"
  "renamed k (map (Pair t) es) = list_ex (name_change_success_to k) es"
  by (auto simp: renamed_def list_ex_iff)

lemma not_registered_not_anon: "\<not> registered s k \<Longrightarrow> \<not> anon_at s k"
  by (simp add: registered_def anon_at_def)

lemma deliver_fields:
  "server (fst (deliver w (t, i))) =
     fst (step (fst (fire_due (server w) (timers w) (max t (clock w)))) i)"
  "clock (fst (deliver w (t, i))) = max t (clock w)"
  "timers (fst (deliver w (t, i))) =
     fst (snd (fire_due (server w) (timers w) (max t (clock w)))) @
     new_timers (max t (clock w))
       (snd (step (fst (fire_due (server w) (timers w) (max t (clock w)))) i))"
  "snd (deliver w (t, i)) =
     snd (snd (fire_due (server w) (timers w) (max t (clock w)))) @
     map (Pair (max t (clock w)))
       (snd (step (fst (fire_due (server w) (timers w) (max t (clock w)))) i))"
  by (simp_all add: deliver_def Let_def)

lemma deliver_defused:
  assumes "\<not> connects k i" "\<not> anon_at (server w) k"
  shows "\<not> anon_at (server (fst (deliver w (t, i)))) k"
    and "filter (forced k) (snd (deliver w (t, i))) = []"
proof -
  let ?T = "max t (clock w)"
  let ?f = "fire_due (server w) (timers w) ?T"
  from fire_due_defused [OF assms(2), of "timers w" ?T]
  have f: "\<not> anon_at (fst ?f) k" "filter (forced k) (snd (snd ?f)) = []" by simp_all
  show "\<not> anon_at (server (fst (deliver w (t, i)))) k"
    using f(1) by (simp add: deliver_fields step_anon [OF assms(1)])
  show "filter (forced k) (snd (deliver w (t, i))) = []"
    using f(2) forced_map_Pair [OF step_effects(1) [OF assms(1)], of ?T "fst ?f"]
    by (simp add: deliver_fields)
qed

lemma deliver_unregistered:
  assumes "\<not> connects k i" "\<not> registered (server w) k"
  shows "\<not> registered (server (fst (deliver w (t, i)))) k"
    and "\<not> renamed k (snd (deliver w (t, i)))"
proof -
  let ?T = "max t (clock w)"
  let ?f = "fire_due (server w) (timers w) ?T"
  have f: "\<not> registered (fst ?f) k" by (rule fire_due_registered [OF assms(2)])
  show "\<not> registered (server (fst (deliver w (t, i)))) k"
    by (simp add: deliver_fields step_registered(1) [OF assms(1) f])
  have "\<not> renamed k (snd (snd ?f))"
    using fire_due_no_success [of k "server w" "timers w" ?T] by (simp add: renamed_def)
  then show "\<not> renamed k (snd (deliver w (t, i)))"
    by (simp add: deliver_fields step_registered(2) [OF assms(1) f])
qed

lemma deliver_armed_early:
  assumes "armed k due w" "\<not> connects k i" "clock w \<le> t" "t < due"
  shows "filter (forced k) (snd (deliver w (t, i))) = []"
    and "anon_at (server (fst (deliver w (t, i)))) k =
           (i \<noteq> Client k Disconnect \<and> \<not> renamed k (snd (deliver w (t, i))))"
    and "filter (timer_of k) (timers (fst (deliver w (t, i)))) = [(due, k)]"
    and "clock (fst (deliver w (t, i))) = t"
proof -
  have T: "max t (clock w) = t" using assms(3) by simp
  let ?f = "fire_due (server w) (timers w) t"
  from assms(1) have a: "anon_at (server w) k" "filter (timer_of k) (timers w) = [(due, k)]"
    by (simp_all add: armed_def)
  from fire_due_armed_early [OF a assms(4)]
  have f: "anon_at (fst ?f) k" "filter (timer_of k) (fst (snd ?f)) = [(due, k)]"
    "filter (forced k) (snd (snd ?f)) = []"
    by simp_all
  have ns: "\<not> renamed k (snd (snd ?f))"
    using fire_due_no_success [of k "server w" "timers w" t] by (simp add: renamed_def)
  show "filter (forced k) (snd (deliver w (t, i))) = []"
    using f(3) forced_map_Pair [OF step_effects(1) [OF assms(2)], of t "fst ?f"]
    by (simp add: deliver_fields T)
  show "anon_at (server (fst (deliver w (t, i)))) k =
           (i \<noteq> Client k Disconnect \<and> \<not> renamed k (snd (deliver w (t, i))))"
    using f(1) ns by (simp add: deliver_fields T step_anon [OF assms(2)])
  show "filter (timer_of k) (timers (fst (deliver w (t, i)))) = [(due, k)]"
    using f(2) by (simp add: deliver_fields T step_effects(2) [OF assms(2)])
  show "clock (fst (deliver w (t, i))) = t"
    by (simp add: deliver_fields T)
qed

lemma deliver_armed_late:
  assumes "armed k due w" "\<not> connects k i" "due \<le> t"
  shows "filter (forced k) (snd (deliver w (t, i))) = [(due, SocketDisconnect k)]"
    and "\<not> registered (server (fst (deliver w (t, i)))) k"
    and "\<not> renamed k (snd (deliver w (t, i)))"
    and "clock (fst (deliver w (t, i))) = t"
proof -
  from assms(1) have a: "anon_at (server w) k" "filter (timer_of k) (timers w) = [(due, k)]"
    and c: "clock w < due"
    by (simp_all add: armed_def)
  have T: "max t (clock w) = t" using assms(3) c by simp
  let ?f = "fire_due (server w) (timers w) t"
  from fire_due_armed_late [OF a assms(3)]
  have f: "\<not> registered (fst ?f) k" "filter (forced k) (snd (snd ?f)) = [(due, SocketDisconnect k)]"
    by simp_all
  have ns: "\<not> renamed k (snd (snd ?f))"
    using fire_due_no_success [of k "server w" "timers w" t] by (simp add: renamed_def)
  show "filter (forced k) (snd (deliver w (t, i))) = [(due, SocketDisconnect k)]"
    using f(2) forced_map_Pair [OF step_effects(1) [OF assms(2)], of t "fst ?f"]
    by (simp add: deliver_fields T)
  show "\<not> registered (server (fst (deliver w (t, i)))) k"
    by (simp add: deliver_fields T step_registered(1) [OF assms(2) f(1)])
  show "\<not> renamed k (snd (deliver w (t, i)))"
    using ns by (simp add: deliver_fields T step_registered(2) [OF assms(2) f(1)])
  show "clock (fst (deliver w (t, i))) = t"
    by (simp add: deliver_fields T)
qed

subsection \<open>Streams of inputs\<close>

lemma run_Cons:
  "fst (run w (ti # tis)) = fst (run (fst (deliver w ti)) tis)"
  "snd (run w (ti # tis)) = snd (deliver w ti) @ snd (run (fst (deliver w ti)) tis)"
  by (simp_all add: Let_def)

lemma no_connection_Cons [simp]:
  "no_connection k ((t, i) # tis) = (\<not> connects k i \<and> no_connection k tis)"
  "no_connection k []"
  by (simp_all add: no_connection_def)

lemma left_before_Cons [simp]:
  "left_before k due ((t, i) # tis) = ((t < due \<and> i = Client k Disconnect) \<or> left_before k due tis)"
  "left_before k due [] = False"
  by (simp_all add: left_before_def)

lemma run_defused:
  assumes "no_connection k tis" "\<not> anon_at (server w) k"
  shows "filter (forced k) (snd (run w tis)) = []"
  using assms
proof (induction tis arbitrary: w)
  case Nil
  then show ?case by simp
next
  case (Cons ti tis)
  obtain t i where ti: "ti = (t, i)" by (cases ti)
  from Cons.prems have c: "\<not> connects k i" and n: "no_connection k tis"
    by (simp_all add: ti)
  from deliver_defused [OF c Cons.prems(2), of t] Cons.IH [OF n, of "fst (deliver w (t, i))"]
  show ?case by (simp only: ti run_Cons filter_append) simp
qed

lemma run_unregistered:
  assumes "no_connection k tis" "\<not> registered (server w) k"
  shows "\<not> renamed k (snd (run w tis))"
  using assms
proof (induction tis arbitrary: w)
  case Nil
  then show ?case by simp
next
  case (Cons ti tis)
  obtain t i where ti: "ti = (t, i)" by (cases ti)
  from Cons.prems have c: "\<not> connects k i" and n: "no_connection k tis"
    by (simp_all add: ti)
  from deliver_unregistered [OF c Cons.prems(2), of t] Cons.IH [OF n, of "fst (deliver w (t, i))"]
  show ?case by (simp only: ti run_Cons renamed_simps) simp
qed

lemma run_clock: "clock w \<le> clock (fst (run w tis))"
proof (induction tis arbitrary: w)
  case Nil
  then show ?case by simp
next
  case (Cons ti tis)
  obtain t i where ti: "ti = (t, i)" by (cases ti)
  have "clock w \<le> clock (fst (deliver w (t, i)))" by (simp add: deliver_fields)
  also have "\<dots> \<le> clock (fst (run (fst (deliver w (t, i))) tis))" by (rule Cons.IH)
  finally show ?case by (simp only: ti run_Cons)
qed

lemma late_not_left_before:
  assumes "\<forall>x \<in> set tis. due \<le> fst x"
  shows "\<not> left_before k due tis"
  using assms by (auto simp: left_before_def list_ex_iff)

lemma run_armed:
  assumes "armed k due w" "no_connection k tis" "sorted (map fst tis)"
    and "\<forall>x \<in> set tis. clock w \<le> fst x"
  shows "filter (forced k) (snd (run w tis)) =
           (if \<not> renamed k (snd (run w tis)) \<and> \<not> left_before k due tis \<and>
               due \<le> clock (fst (run w tis))
            then [(due, SocketDisconnect k)] else [])"
  using assms
proof (induction tis arbitrary: w)
  case Nil
  then show ?case by (simp add: armed_def)
next
  case (Cons ti tis)
  obtain t i where ti: "ti = (t, i)" by (cases ti)
  from Cons.prems have c: "\<not> connects k i" and n: "no_connection k tis"
    and s: "sorted (map fst tis)" and later: "\<forall>x \<in> set tis. t \<le> fst x"
    and ct: "clock w \<le> t"
    by (simp_all add: ti)
  let ?w1 = "fst (deliver w (t, i))"
  let ?log1 = "snd (deliver w (t, i))"
  let ?rest = "snd (run ?w1 tis)"
  have whole: "snd (run w (ti # tis)) = ?log1 @ ?rest"
    and final: "fst (run w (ti # tis)) = fst (run ?w1 tis)"
    by (simp_all only: ti run_Cons)
  show ?case
  proof (cases "t < due")
    case True
    note e = deliver_armed_early [OF Cons.prems(1) c ct True]
    show ?thesis
    proof (cases "anon_at (server ?w1) k")
      case True
      then have i: "i \<noteq> Client k Disconnect" and r: "\<not> renamed k ?log1"
        using e(2) by simp_all
      have a: "armed k due ?w1"
        using True e(3,4) \<open>t < due\<close> by (simp add: armed_def)
      have "\<forall>x \<in> set tis. clock ?w1 \<le> fst x"
        using later e(4) by simp
      from Cons.IH [OF a n s this] e(1) i r show ?thesis
        unfolding whole final by (simp add: ti)
    next
      case False
      then have "i = Client k Disconnect \<or> renamed k ?log1"
        using e(2) by simp
      moreover have "filter (forced k) ?rest = []"
        by (rule run_defused [OF n False])
      ultimately show ?thesis
        using e(1) \<open>t < due\<close> unfolding whole final by (auto simp: ti)
    qed
  next
    case False
    then have late: "due \<le> t" by simp
    note l = deliver_armed_late [OF Cons.prems(1) c late]
    have 1: "filter (forced k) ?rest = []"
      by (rule run_defused [OF n not_registered_not_anon [OF l(2)]])
    have 2: "\<not> renamed k ?rest"
      by (rule run_unregistered [OF n l(2)])
    have "\<forall>x \<in> set tis. due \<le> fst x"
      using late later by auto
    then have 3: "\<not> left_before k due ((t, i) # tis)"
      using late late_not_left_before [of tis due k] by simp
    have 4: "due \<le> clock (fst (run ?w1 tis))"
      using run_clock [of ?w1 tis] l(4) late by simp
    show ?thesis
      unfolding whole final using l(1,3) 1 2 3 4 by (simp add: ti)
  qed
qed

lemma run_clock_sorted:
  assumes "sorted (map fst tis)" "\<forall>x \<in> set tis. clock w \<le> fst x"
  shows "clock (fst (run w tis)) = last (clock w # map fst tis)"
  using assms
proof (induction tis arbitrary: w)
  case Nil
  then show ?case by simp
next
  case (Cons ti tis)
  obtain t i where ti: "ti = (t, i)" by (cases ti)
  from Cons.prems have s: "sorted (map fst tis)" and later: "\<forall>x \<in> set tis. t \<le> fst x"
    and ct: "clock w \<le> t"
    by (simp_all add: ti)
  have c: "clock (fst (deliver w (t, i))) = t"
    using ct by (simp add: deliver_fields)
  from Cons.IH [OF s, of "fst (deliver w (t, i))"] later c show ?case
    by (simp only: ti run_Cons) simp
qed

lemma connection_armed:
  assumes "filter (timer_of k) (timers w) = []" "clock w \<le> t0"
  shows "armed k (t0 + 900000) (fst (deliver w (t0, Connection k ip False now pc)))"
    and "filter (forced k) (snd (deliver w (t0, Connection k ip False now pc))) = []"
    and "\<not> renamed k (snd (deliver w (t0, Connection k ip False now pc)))"
    and "clock (fst (deliver w (t0, Connection k ip False now pc))) = t0"
proof -
  have T: "max t0 (clock w) = t0" using assms(2) by simp
  let ?f = "fire_due (server w) (timers w) t0"
  let ?d = "deliver w (t0, Connection k ip False now pc)"
  have server: "server (fst ?d) = fst (connection (fst ?f) k ip False now pc)"
    and timers: "timers (fst ?d) = fst (snd ?f) @ [(t0 + 900000, k)]"
    and effects: "snd ?d = snd (snd ?f) @ map (Pair t0) (snd (connection (fst ?f) k ip False now pc))"
    by (simp_all add: deliver_fields T step_def connection_effects)
  show c: "clock (fst ?d) = t0" by (simp add: deliver_fields T)
  have "anon_at (server (fst ?d)) k"
    by (simp add: server anon_at_def users_connection update_conv')
  moreover have "filter (timer_of k) (timers (fst ?d)) = [(t0 + 900000, k)]"
    by (simp add: timers fire_due_timers_subset [OF assms(1)])
  ultimately show "armed k (t0 + 900000) (fst ?d)"
    by (simp add: armed_def c)
  show "filter (forced k) (snd ?d) = []"
    using fire_due_untouched [OF assms(1), of "server w" t0]
      forced_map_Pair [OF connection_effects(1), of k t0 "fst ?f" k ip False now pc]
    by (simp add: effects)
  show "\<not> renamed k (snd ?d)"
    using fire_due_no_success [of k "server w" "timers w" t0]
    by (simp add: effects connection_effects) (simp add: renamed_def)
qed

lemma connection_overlay_defused:
  assumes "filter (timer_of k) (timers w) = []"
  shows "\<not> anon_at (server (fst (deliver w (t0, Connection k ip True now pc)))) k"
    and "filter (forced k) (snd (deliver w (t0, Connection k ip True now pc))) = []"
proof -
  let ?T = "max t0 (clock w)"
  let ?f = "fire_due (server w) (timers w) ?T"
  let ?d = "deliver w (t0, Connection k ip True now pc)"
  show "\<not> anon_at (server (fst ?d)) k"
    by (simp add: deliver_fields step_def anon_at_def users_connection update_conv')
  show "filter (forced k) (snd ?d) = []"
    using fire_due_untouched [OF assms(1), of "server w" ?T]
      forced_map_Pair [OF connection_effects(1), of k ?T "fst ?f" k ip True now pc]
    by (simp add: deliver_fields step_def)
qed

text \<open>
  Claim C9. Time is the time of the event loop in milliseconds, and a timer callback runs
  once, at the time it is due. Take a world with no pending timer of the socket \<open>k\<close>, a
  participant that connects on \<open>k\<close> at time \<open>t0\<close>, and any later inputs in the order of
  their times, none of them a connection of \<open>k\<close>. The forced disconnections of \<open>k\<close> in
  the log are then exactly one, at \<open>t0\<close> plus 15 minutes, when the session got no
  \<open>name-change-success\<close>, did not disconnect before that time, and that time has been
  reached; otherwise there is none. So the session is not disconnected before the 15
  minutes, a session that renamed or left before is not disconnected by the timer, and no
  session is disconnected twice. An overlay that connects is never disconnected by a
  timer.
\<close>

theorem anonymity_timer_fires_once_at_15_minutes:
  "filter (timer_of k) (timers w) = [] \<and> clock w \<le> t0 \<and> sorted (t0 # map fst tis) \<and>
   no_connection k tis \<longrightarrow>
   (let r = run w ((t0, Connection k ip False now pc) # tis);
        due = t0 + 15 * 60 * 1000
    in filter (forced k) (snd r) =
         (if \<not> renamed k (snd r) \<and> \<not> left_before k due tis \<and> due \<le> clock (fst r)
          then [(due, SocketDisconnect k)] else []) \<and>
       clock (fst r) = last (t0 # map fst tis)) \<and>
   filter (forced k) (snd (run w ((t0, Connection k ip True now pc) # tis))) = []"
proof (intro impI)
  assume h: "filter (timer_of k) (timers w) = [] \<and> clock w \<le> t0 \<and> sorted (t0 # map fst tis) \<and>
   no_connection k tis"
  then have nt: "filter (timer_of k) (timers w) = []" and c: "clock w \<le> t0"
    and s: "sorted (map fst tis)" and later: "\<forall>x \<in> set tis. t0 \<le> fst x"
    and n: "no_connection k tis"
    by simp_all
  let ?d = "deliver w (t0, Connection k ip False now pc)"
  note a = connection_armed [OF nt c, of ip now pc]
  have l: "\<forall>x \<in> set tis. clock (fst ?d) \<le> fst x"
    using later a(4) by simp
  note m = run_armed [OF a(1) n s l]
  have k: "clock (fst (run (fst ?d) tis)) = last (t0 # map fst tis)"
    using run_clock_sorted [OF s l] a(4) by simp
  have part: "let r = run w ((t0, Connection k ip False now pc) # tis);
        due = t0 + 15 * 60 * 1000
    in filter (forced k) (snd r) =
         (if \<not> renamed k (snd r) \<and> \<not> left_before k due tis \<and> due \<le> clock (fst r)
          then [(due, SocketDisconnect k)] else []) \<and>
       clock (fst r) = last (t0 # map fst tis)"
    unfolding Let_def run_Cons using m a(2,3) k by simp
  let ?o = "deliver w (t0, Connection k ip True now pc)"
  note o = connection_overlay_defused [OF nt, of t0 ip now pc]
  have "filter (forced k) (snd (run (fst ?o) tis)) = []"
    by (rule run_defused [OF n o(1)])
  then have over: "filter (forced k) (snd (run w ((t0, Connection k ip True now pc) # tis))) = []"
    unfolding run_Cons using o(2) by simp
  from part over show "(let r = run w ((t0, Connection k ip False now pc) # tis);
        due = t0 + 15 * 60 * 1000
    in filter (forced k) (snd r) =
         (if \<not> renamed k (snd r) \<and> \<not> left_before k due tis \<and> due \<le> clock (fst r)
          then [(due, SocketDisconnect k)] else []) \<and>
       clock (fst r) = last (t0 # map fst tis)) \<and>
   filter (forced k) (snd (run w ((t0, Connection k ip True now pc) # tis))) = []"
    by simp
qed

lemma step_success:
  assumes "\<not> rename_by k i"
  shows "\<not> list_ex (name_change_success_to k) (snd (step s i))"
proof (cases i)
  case (Midi t v)
  then show ?thesis by (simp add: step_def signal_effects)
next
  case (Osc a x)
  then show ?thesis by (simp add: step_def signal_effects)
next
  case (Connection k' ip ov now pc)
  then show ?thesis by (simp add: step_def connection_effects)
next
  case (Client k' ev)
  show ?thesis
  proof (cases "k' = k")
    case False
    then show ?thesis by (simp add: Client step_def client_effects)
  next
    case True
    consider (plain) "plain_event ev" | (rename) n where "ev = User_Name_Change n"
      | (leave) "ev = Disconnect"
      by (cases ev) (simp_all add: plain_event_def)
    then show ?thesis
    proof cases
      case plain
      then show ?thesis by (simp add: Client True step_def client_same_plain)
    next
      case rename
      then show ?thesis using assms by (simp add: Client True rename_by_def)
    next
      case leave
      then show ?thesis by (simp add: Client True step_def client_same_disconnect)
    qed
  qed
qed

lemma run_not_renamed:
  assumes "\<not> list_ex (\<lambda>x. rename_by k (snd x)) tis"
  shows "\<not> renamed k (snd (run w tis))"
  using assms
proof (induction tis arbitrary: w)
  case Nil
  then show ?case by simp
next
  case (Cons ti tis)
  obtain t i where ti: "ti = (t, i)" by (cases ti)
  from Cons.prems have i: "\<not> rename_by k i" and r: "\<not> list_ex (\<lambda>x. rename_by k (snd x)) tis"
    by (simp_all add: ti)
  have "\<not> renamed k (snd (deliver w (t, i)))"
    using fire_due_no_success [of k "server w" "timers w" "max t (clock w)"] step_success [OF i]
    by (simp add: deliver_fields) (simp add: renamed_def)
  with Cons.IH [OF r, of "fst (deliver w (t, i))"] show ?case
    by (simp only: ti run_Cons renamed_simps) simp
qed

lemma rename_in_quiet_world:
  "list_ex (name_change_success_to ''p'')
     (snd (step (fst (connection (initial_state default_tags None True)
                       ''p'' ''::ffff:10.0.0.7'' False ''t0'' 0))
             (Client ''p'' (User_Name_Change ''Bob''))))"
  by (simp add: step_def client_def handle_def user_name_change_def as_participant_def
      isNameTaken_def connection_def initial_state_def Let_def)

text \<open>
  The theorem for a participant that connects at 1 s in \<open>quiet_world\<close>: with timecode
  inputs up to 901 s it is disconnected at 901 s; with inputs up to 900.999 s it is not;
  when it disconnects, or takes the name Bob, at 5 s, it is not disconnected at 901 s.
\<close>

theorem anonymity_timer_fires_once_at_15_minutes_witness:
  "filter (timer_of ''p'') (timers quiet_world) = [] \<and> clock quiet_world \<le> 1000 \<and>
   sorted (1000 # map fst [(5000, Midi 0 5), (900999, Midi 1 2), (901000 :: nat, Midi 2 10)]) \<and>
   no_connection ''p'' [(5000, Midi 0 5), (900999, Midi 1 2), (901000, Midi 2 10)] \<and>
   filter (forced ''p'') (snd (run quiet_world
     [(1000, Connection ''p'' ''::ffff:10.0.0.7'' False ''t0'' 0),
      (5000, Midi 0 5), (900999, Midi 1 2), (901000, Midi 2 10)])) =
     [(901000, SocketDisconnect ''p'')] \<and>
   filter (forced ''p'') (snd (run quiet_world
     [(1000, Connection ''p'' ''::ffff:10.0.0.7'' False ''t0'' 0),
      (5000, Midi 0 5), (900999, Midi 1 2)])) = [] \<and>
   filter (forced ''p'') (snd (run quiet_world
     [(1000, Connection ''p'' ''::ffff:10.0.0.7'' False ''t0'' 0),
      (5000, Client ''p'' Disconnect), (901000, Midi 2 10)])) = [] \<and>
   filter (forced ''p'') (snd (run quiet_world
     [(1000, Connection ''p'' ''::ffff:10.0.0.7'' False ''t0'' 0),
      (5000, Client ''p'' (User_Name_Change ''Bob'')), (901000, Midi 2 10)])) = []"
proof -
  let ?c = "(1000 :: nat, Connection ''p'' ''::ffff:10.0.0.7'' False ''t0'' 0)"
  let ?a = "[(5000 :: nat, Midi 0 5), (900999, Midi 1 2), (901000, Midi 2 10)]"
  let ?b = "[(5000 :: nat, Midi 0 5), (900999, Midi 1 2)]"
  let ?l = "[(5000 :: nat, Client ''p'' Disconnect), (901000, Midi 2 10)]"
  let ?n = "[(5000 :: nat, Client ''p'' (User_Name_Change ''Bob'')), (901000, Midi 2 10)]"
  have w: "filter (timer_of ''p'') (timers quiet_world) = []" "clock quiet_world \<le> 1000"
    by (simp_all add: quiet_world_def)
  have ha: "sorted (1000 # map fst ?a)" "no_connection ''p'' ?a"
    and hb: "sorted (1000 # map fst ?b)" "no_connection ''p'' ?b"
    and hl: "sorted (1000 # map fst ?l)" "no_connection ''p'' ?l"
    and hn: "sorted (1000 # map fst ?n)" "no_connection ''p'' ?n"
    by simp_all
  have ra: "\<not> renamed ''p'' (snd (run quiet_world (?c # ?a)))"
    and rb: "\<not> renamed ''p'' (snd (run quiet_world (?c # ?b)))"
    by (rule run_not_renamed, simp add: rename_by_def)+
  have 1: "filter (forced ''p'') (snd (run quiet_world (?c # ?a))) =
      [(901000, SocketDisconnect ''p'')]"
    using anonymity_timer_fires_once_at_15_minutes [of "''p''" quiet_world 1000 ?a
        "''::ffff:10.0.0.7''" "''t0''" 0] w ha ra
    by (simp add: Let_def)
  have 2: "filter (forced ''p'') (snd (run quiet_world (?c # ?b))) = []"
    using anonymity_timer_fires_once_at_15_minutes [of "''p''" quiet_world 1000 ?b
        "''::ffff:10.0.0.7''" "''t0''" 0] w hb
    by (simp add: Let_def)
  have 3: "filter (forced ''p'') (snd (run quiet_world (?c # ?l))) = []"
    using anonymity_timer_fires_once_at_15_minutes [of "''p''" quiet_world 1000 ?l
        "''::ffff:10.0.0.7''" "''t0''" 0] w hl
    by (simp add: Let_def)
  have "renamed ''p'' (snd (deliver (fst (deliver quiet_world ?c))
      (5000, Client ''p'' (User_Name_Change ''Bob''))))"
    using rename_in_quiet_world
    by (simp add: deliver_fields quiet_world_def step_def connection_effects)
  then have rn: "renamed ''p'' (snd (run quiet_world (?c # ?n)))"
    by (simp only: run_Cons renamed_simps) simp
  have 4: "filter (forced ''p'') (snd (run quiet_world (?c # ?n))) = []"
    using anonymity_timer_fires_once_at_15_minutes [of "''p''" quiet_world 1000 ?n
        "''::ffff:10.0.0.7''" "''t0''" 0] w hn rn
    by (simp add: Let_def)
  show ?thesis using w ha 1 2 3 4 by (intro conjI)
qed

end
